theory Spec2Isabelle
  imports Main
begin

section \<open>Values held in a workflow context\<close>

text \<open>
  A context is a plain JavaScript object used as a dictionary. The engine stores the parsed
  output of agent \<open>A\<close> under the key \<open>A_output\<close> and a retry counter under
  \<open>A_retries\<close>; callers put strings such as \<open>projectName\<close> there. Values are
  therefore numbers, strings or parsed agent outputs. Of a parsed output only the fields the
  orchestration code reads are kept.
\<close>

record agent_output =
  summary :: string
  tokensUsed :: "nat option"

datatype jsval = JNum int | JStr string | JOut agent_output

type_synonym js_context = "string \<rightharpoonup> jsval"

text \<open>JavaScript truthiness of a looked-up value (\<open>undefined\<close> is \<open>None\<close>).\<close>

fun truthy :: "jsval option \<Rightarrow> bool" where
  "truthy None = False"
| "truthy (Some (JNum n)) = (n \<noteq> 0)"
| "truthy (Some (JStr s)) = (s \<noteq> [])"
| "truthy (Some (JOut out)) = True"

section \<open>Lookups in plain objects\<close>

text \<open>
  The tables of the model selector and the overrides it is configured with are plain objects,
  read as \<open>table[key]\<close>. A key that is not a property of the object itself is looked up
  in \<open>Object.prototype\<close>, which every plain object inherits from; its properties are the
  twelve names below. Eleven of them are functions and \<open>__proto__\<close> yields the prototype
  object: all are truthy and none is nullish, none has properties of the tables' entries,
  and in a numeric comparison each is \<open>NaN\<close>.
\<close>

definition Object_prototype :: "string list" where
  "Object_prototype =
     [''constructor'', ''__defineGetter__'', ''__defineSetter__'', ''hasOwnProperty'',
      ''__lookupGetter__'', ''__lookupSetter__'', ''isPrototypeOf'', ''propertyIsEnumerable'',
      ''toString'', ''valueOf'', ''__proto__'', ''toLocaleString'']"

datatype 'a property = Undefined | Own 'a | Inherited string

definition get_property :: "(string \<rightharpoonup> 'a) \<Rightarrow> string \<Rightarrow> 'a property" where
  "get_property object key =
     (case object key of
        Some v \<Rightarrow> Own v
      | None \<Rightarrow> if key \<in> set Object_prototype then Inherited key else Undefined)"

text \<open>
  What the selector passes around as a tier and returns: a string, or the member of
  \<open>Object.prototype\<close> of the given name, which a lookup in the overrides or in the default
  mappings yields when the agent type is such a name.
\<close>

datatype tier_value = TierName string | InheritedMember string

section \<open>Session manager\<close>

text \<open>
  The session manager keeps one record per session, in a map by session id, and writes the
  record to its file at the end of every mutating call; the model keeps the map. Timestamps,
  generated checkpoint ids and the events emitted to listeners are left out: no operation
  reads them back. The uuid of a new session is an argument of \<open>createSession\<close>.
\<close>

datatype SessionStatus = Running | Paused | Completed | Failed

datatype sm_error =
    SessionNotFound string
  | CannotResumeCompleted
  | NoCheckpoints

record checkpoint_state =
  st_currentStageIndex :: int
  st_context :: js_context

record checkpoint =
  cp_sessionId :: string
  cp_stageIndex :: int
  cp_stageName :: string
  cp_completedAgents :: "string list"
  cp_state :: "checkpoint_state option"

text \<open>The argument of \<open>checkpoint\<close>; an absent \<open>completedAgents\<close> or \<open>state\<close>
  is \<open>None\<close>, and an absent state is stored as the empty object, \<open>None\<close> again.\<close>

record checkpoint_data =
  d_stageIndex :: int
  d_stageName :: string
  d_completedAgents :: "string list option"
  d_state :: "checkpoint_state option"

datatype log_entry =
    LogWorkflowStarted string string
  | LogStageStarted int string
  | LogAgentSpawned string tier_value
  | LogAgentRetry string int
  | LogPrCreated string
  | LogPrFailed string

record execution_record =
  er_agentType :: string
  er_status :: string
  er_tokensUsed :: "nat option"
  er_error :: "string option"
  er_executionTime :: "nat option"

record session_metadata =
  totalTokens :: nat
  totalExecutionTime :: nat
  md_agentExecutions :: "execution_record list"

record run_options =
  createBranch :: "bool option"

record workflow_result =
  res_runId :: string
  res_gitBranch :: "string option"

record session =
  sess_id :: string
  sess_status :: SessionStatus
  sess_workflowId :: string
  sess_context :: js_context
  sess_options :: run_options
  checkpoints :: "checkpoint list"
  logs :: "log_entry list"
  sess_completedAgents :: "string list"
  currentStage :: int
  metadata :: session_metadata
  sess_error :: "string option"
  sess_result :: "workflow_result option"

text \<open>
  The third argument of \<open>updateStatus\<close> is an object whose own properties are copied
  onto the session by \<open>Object.assign\<close>: one optional value per session field.
\<close>

record session_updates =
  u_status :: "SessionStatus option"
  u_workflowId :: "string option"
  u_context :: "js_context option"
  u_options :: "run_options option"
  u_checkpoints :: "checkpoint list option"
  u_logs :: "log_entry list option"
  u_completedAgents :: "string list option"
  u_currentStage :: "int option"
  u_metadata :: "session_metadata option"
  u_error :: "string option"
  u_result :: "workflow_result option option"

definition no_updates :: session_updates where
  "no_updates = \<lparr>u_status = None, u_workflowId = None, u_context = None, u_options = None,
     u_checkpoints = None, u_logs = None, u_completedAgents = None, u_currentStage = None,
     u_metadata = None, u_error = None, u_result = None\<rparr>"

type_synonym session_store = "string \<rightharpoonup> session"

definition createSession ::
  "session_store \<Rightarrow> string \<Rightarrow> string \<Rightarrow> js_context option \<Rightarrow> run_options
     \<Rightarrow> session \<times> session_store" where
  "createSession sm sessionId workflowId ctx opts =
     (let session = \<lparr>sess_id = sessionId, sess_status = Running, sess_workflowId = workflowId,
            sess_context = (case ctx of None \<Rightarrow> Map.empty | Some c \<Rightarrow> c),
            sess_options = opts, checkpoints = [], logs = [], sess_completedAgents = [],
            currentStage = 0,
            metadata = \<lparr>totalTokens = 0, totalExecutionTime = 0, md_agentExecutions = []\<rparr>,
            sess_error = None, sess_result = None\<rparr>
      in (session, sm(sessionId \<mapsto> session)))"

definition getSession :: "session_store \<Rightarrow> string \<Rightarrow> session option" where
  "getSession sm sessionId = sm sessionId"

definition object_assign :: "session \<Rightarrow> session_updates \<Rightarrow> session" where
  "object_assign s u =
     s\<lparr>sess_status := (case u_status u of None \<Rightarrow> sess_status s | Some v \<Rightarrow> v),
       sess_workflowId := (case u_workflowId u of None \<Rightarrow> sess_workflowId s | Some v \<Rightarrow> v),
       sess_context := (case u_context u of None \<Rightarrow> sess_context s | Some v \<Rightarrow> v),
       sess_options := (case u_options u of None \<Rightarrow> sess_options s | Some v \<Rightarrow> v),
       checkpoints := (case u_checkpoints u of None \<Rightarrow> checkpoints s | Some v \<Rightarrow> v),
       logs := (case u_logs u of None \<Rightarrow> logs s | Some v \<Rightarrow> v),
       sess_completedAgents :=
         (case u_completedAgents u of None \<Rightarrow> sess_completedAgents s | Some v \<Rightarrow> v),
       currentStage := (case u_currentStage u of None \<Rightarrow> currentStage s | Some v \<Rightarrow> v),
       metadata := (case u_metadata u of None \<Rightarrow> metadata s | Some v \<Rightarrow> v),
       sess_error := (case u_error u of None \<Rightarrow> sess_error s | Some v \<Rightarrow> Some v),
       sess_result := (case u_result u of None \<Rightarrow> sess_result s | Some v \<Rightarrow> v)\<rparr>"

definition updateStatus ::
  "session_store \<Rightarrow> string \<Rightarrow> SessionStatus \<Rightarrow> session_updates \<Rightarrow> sm_error + session_store" where
  "updateStatus sm sessionId status updates =
     (case getSession sm sessionId of
        None \<Rightarrow> Inl (SessionNotFound sessionId)
      | Some session \<Rightarrow>
          Inr (sm(sessionId \<mapsto> object_assign (session\<lparr>sess_status := status\<rparr>) updates)))"

definition checkpoint ::
  "session_store \<Rightarrow> string \<Rightarrow> checkpoint_data \<Rightarrow> sm_error + (checkpoint \<times> session_store)" where
  "checkpoint sm sessionId data =
     (case getSession sm sessionId of
        None \<Rightarrow> Inl (SessionNotFound sessionId)
      | Some session \<Rightarrow>
          (let cp = \<lparr>cp_sessionId = sessionId, cp_stageIndex = d_stageIndex data,
                 cp_stageName = d_stageName data,
                 cp_completedAgents =
                   (case d_completedAgents data of None \<Rightarrow> [] | Some as \<Rightarrow> as),
                 cp_state = d_state data\<rparr>;
               session' = session\<lparr>checkpoints := checkpoints session @ [cp],
                 currentStage := d_stageIndex data + 1,
                 sess_completedAgents := cp_completedAgents cp\<rparr>
           in Inr (cp, sm(sessionId \<mapsto> session'))))"

text \<open>\<open>restore\<close> returns \<open>null\<close> (here \<open>Inr (None, sm)\<close>) when the session file is
  missing, and throws for a completed session and for a failed one without checkpoints.\<close>

definition restore ::
  "session_store \<Rightarrow> string
     \<Rightarrow> sm_error + ((session \<times> checkpoint option) option \<times> session_store)" where
  "restore sm sessionId =
     (case sm sessionId of
        None \<Rightarrow> Inr (None, sm)
      | Some session \<Rightarrow>
          if sess_status session = Completed then Inl CannotResumeCompleted
          else if length (checkpoints session) = 0 \<and> sess_status session = Failed
          then Inl NoCheckpoints
          else
            (let latestCheckpoint =
                   (if length (checkpoints session) > 0
                    then Some (checkpoints session ! (length (checkpoints session) - 1))
                    else None);
                 session' = session\<lparr>sess_status := Running\<rparr>
             in Inr (Some (session', latestCheckpoint), sm(sessionId \<mapsto> session'))))"

text \<open>\<open>logs.slice(-1000)\<close> keeps the last 1000 elements.\<close>

definition addLog :: "session_store \<Rightarrow> string \<Rightarrow> log_entry \<Rightarrow> session_store" where
  "addLog sm sessionId logEntry =
     (case getSession sm sessionId of
        None \<Rightarrow> sm
      | Some session \<Rightarrow>
          (let pushed = logs session @ [logEntry];
               kept = (if length pushed > 1000 then drop (length pushed - 1000) pushed
                       else pushed)
           in sm(sessionId \<mapsto> session\<lparr>logs := kept\<rparr>)))"

definition recordAgentExecution ::
  "session_store \<Rightarrow> string \<Rightarrow> execution_record \<Rightarrow> session_store" where
  "recordAgentExecution sm sessionId execution =
     (case getSession sm sessionId of
        None \<Rightarrow> sm
      | Some session \<Rightarrow>
          (let md = metadata session;
               md1 = md\<lparr>md_agentExecutions := md_agentExecutions md @ [execution]\<rparr>;
               md2 = (case er_tokensUsed execution of
                        None \<Rightarrow> md1
                      | Some t \<Rightarrow> if t \<noteq> 0 then md1\<lparr>totalTokens := totalTokens md1 + t\<rparr>
                                  else md1);
               md3 = (case er_executionTime execution of
                        None \<Rightarrow> md2
                      | Some t \<Rightarrow>
                          if t \<noteq> 0
                          then md2\<lparr>totalExecutionTime := totalExecutionTime md2 + t\<rparr>
                          else md2);
               done' = (if er_status execution = ''completed''
                        then sess_completedAgents session @ [er_agentType execution]
                        else sess_completedAgents session)
           in sm(sessionId \<mapsto> session\<lparr>metadata := md3, sess_completedAgents := done'\<rparr>)))"

definition markFailed :: "session_store \<Rightarrow> string \<Rightarrow> string \<Rightarrow> sm_error + session_store" where
  "markFailed sm sessionId err = updateStatus sm sessionId Failed (no_updates\<lparr>u_error := Some err\<rparr>)"

definition markCompleted ::
  "session_store \<Rightarrow> string \<Rightarrow> workflow_result option \<Rightarrow> sm_error + session_store" where
  "markCompleted sm sessionId result =
     updateStatus sm sessionId Completed (no_updates\<lparr>u_result := Some result\<rparr>)"

definition markPaused :: "session_store \<Rightarrow> string \<Rightarrow> sm_error + session_store" where
  "markPaused sm sessionId = updateStatus sm sessionId Paused no_updates"

definition isResumable :: "session_store \<Rightarrow> string \<Rightarrow> bool" where
  "isResumable sm sessionId =
     (case getSession sm sessionId of
        None \<Rightarrow> False
      | Some session \<Rightarrow>
          (sess_status session = Failed \<or> sess_status session = Paused) \<and>
          (length (checkpoints session) > 0 \<or> length (sess_completedAgents session) > 0))"

section \<open>Agent configurations\<close>

record agent_config =
  cfg_type :: string
  cfg_name :: string
  dependencies :: "string list"
  defaultModel :: string
  maxRetries :: int
  timeoutMs :: int

abbreviation OPUS :: string where "OPUS \<equiv> ''opus''"
abbreviation SONNET :: string where "SONNET \<equiv> ''sonnet''"
abbreviation HAIKU :: string where "HAIKU \<equiv> ''haiku''"

text \<open>The frozen table \<open>AGENT_CONFIGS\<close>, without the prompt file and the capability flags.\<close>

definition AGENT_CONFIGS :: "string \<rightharpoonup> agent_config" where
  "AGENT_CONFIGS = map_of
    [(''PM'', \<lparr>cfg_type = ''PM'', cfg_name = ''Project Manager'', dependencies = [],
        defaultModel = OPUS, maxRetries = 3, timeoutMs = 300000\<rparr>),
     (''ARCHITECT'', \<lparr>cfg_type = ''ARCHITECT'', cfg_name = ''System Architect'',
        dependencies = [''PM''], defaultModel = OPUS, maxRetries = 3, timeoutMs = 300000\<rparr>),
     (''UIUX'', \<lparr>cfg_type = ''UIUX'', cfg_name = ''UI/UX Designer'',
        dependencies = [''PM''], defaultModel = SONNET, maxRetries = 3, timeoutMs = 240000\<rparr>),
     (''TL_FRONTEND'', \<lparr>cfg_type = ''TL_FRONTEND'', cfg_name = ''Tech Lead - Frontend'',
        dependencies = [''ARCHITECT'', ''UIUX''], defaultModel = SONNET, maxRetries = 3,
        timeoutMs = 240000\<rparr>),
     (''TL_BACKEND'', \<lparr>cfg_type = ''TL_BACKEND'', cfg_name = ''Tech Lead - Backend'',
        dependencies = [''ARCHITECT''], defaultModel = SONNET, maxRetries = 3,
        timeoutMs = 240000\<rparr>),
     (''DEV_FRONTEND'', \<lparr>cfg_type = ''DEV_FRONTEND'', cfg_name = ''Frontend Developer'',
        dependencies = [''TL_FRONTEND''], defaultModel = SONNET, maxRetries = 3,
        timeoutMs = 360000\<rparr>),
     (''DEV_BACKEND'', \<lparr>cfg_type = ''DEV_BACKEND'', cfg_name = ''Backend Developer'',
        dependencies = [''TL_BACKEND''], defaultModel = SONNET, maxRetries = 3,
        timeoutMs = 360000\<rparr>),
     (''TEST'', \<lparr>cfg_type = ''TEST'', cfg_name = ''Test Engineer'',
        dependencies = [''DEV_FRONTEND'', ''DEV_BACKEND''], defaultModel = SONNET,
        maxRetries = 3, timeoutMs = 300000\<rparr>),
     (''CQR'', \<lparr>cfg_type = ''CQR'', cfg_name = ''Code Quality Reviewer'',
        dependencies = [''DEV_FRONTEND'', ''DEV_BACKEND''], defaultModel = SONNET,
        maxRetries = 3, timeoutMs = 240000\<rparr>),
     (''SR'', \<lparr>cfg_type = ''SR'', cfg_name = ''Security Reviewer'',
        dependencies = [''DEV_FRONTEND'', ''DEV_BACKEND''], defaultModel = OPUS,
        maxRetries = 3, timeoutMs = 300000\<rparr>),
     (''DOE'', \<lparr>cfg_type = ''DOE'', cfg_name = ''DevOps Engineer'',
        dependencies = [''DEV_FRONTEND'', ''DEV_BACKEND''], defaultModel = HAIKU,
        maxRetries = 3, timeoutMs = 180000\<rparr>)]"

text \<open>
  The functions below read the table through \<open>getAgentConfig\<close>. They take the table as
  their first argument, so that statements about a retry limit or a dependency relation
  other than the shipped one can be made; the shipped table is \<open>AGENT_CONFIGS\<close>.
\<close>

definition getAgentDependencies :: "(string \<rightharpoonup> agent_config) \<Rightarrow> string \<Rightarrow> string list" where
  "getAgentDependencies configs agentType =
     (case configs agentType of None \<Rightarrow> [] | Some config \<Rightarrow> dependencies config)"

section \<open>Topological levels of a set of agents\<close>

datatype topo_error = CircularDependency

type_synonym in_degree = "string \<rightharpoonup> int"
type_synonym adjacency = "string \<rightharpoonup> string list"

text \<open>The bodies of the two loops that set up the graph, and the loops.\<close>

definition graph_init_step :: "string \<Rightarrow> in_degree \<times> adjacency \<Rightarrow> in_degree \<times> adjacency" where
  "graph_init_step type g =
     (case g of (inDegree, adjacency) \<Rightarrow> (inDegree(type \<mapsto> 0), adjacency(type \<mapsto> [])))"

definition graph_init :: "string list \<Rightarrow> in_degree \<times> adjacency" where
  "graph_init agentTypes = fold graph_init_step agentTypes (Map.empty, Map.empty)"

text \<open>
  \<open>adjacency.get(dep).push(type)\<close>. The key \<open>dep\<close> has passed the filter
  \<open>agentTypes.includes\<close> and every element of \<open>agentTypes\<close> was given an entry by the
  first loop, so the lookup is never \<open>undefined\<close> (lemma \<open>graph_build_eq\<close>
  below); the \<open>None\<close> branch only makes the function total.
\<close>

definition adjacency_push :: "string \<Rightarrow> string \<Rightarrow> adjacency \<Rightarrow> adjacency" where
  "adjacency_push type dep adjacency =
     (case adjacency dep of None \<Rightarrow> adjacency | Some ds \<Rightarrow> adjacency(dep \<mapsto> ds @ [type]))"

definition subset_deps :: "(string \<rightharpoonup> agent_config) \<Rightarrow> string list \<Rightarrow> string \<Rightarrow> string list" where
  "subset_deps configs agentTypes type =
     filter (\<lambda>d. d \<in> set agentTypes) (getAgentDependencies configs type)"

definition graph_build_step ::
  "(string \<rightharpoonup> agent_config) \<Rightarrow> string list \<Rightarrow> string \<Rightarrow> in_degree \<times> adjacency
     \<Rightarrow> in_degree \<times> adjacency" where
  "graph_build_step configs agentTypes type g =
     (case g of (inDegree, adjacency) \<Rightarrow>
        (let deps = subset_deps configs agentTypes type
         in (inDegree(type \<mapsto> int (length deps)),
             fold (adjacency_push type) deps adjacency)))"

definition graph_build ::
  "(string \<rightharpoonup> agent_config) \<Rightarrow> string list \<Rightarrow> in_degree \<times> adjacency \<Rightarrow> in_degree \<times> adjacency" where
  "graph_build configs agentTypes = fold (graph_build_step configs agentTypes) agentTypes"

text \<open>
  \<open>inDegree.set(dependent, inDegree.get(dependent) - 1)\<close>. A missing counter would
  become \<open>NaN\<close>, which never equals \<open>0\<close>; it is left missing, which never equals
  \<open>Some 0\<close> either.
\<close>

definition decrement :: "string \<Rightarrow> in_degree \<Rightarrow> in_degree" where
  "decrement dependent inDegree =
     (case inDegree dependent of None \<Rightarrow> inDegree | Some n \<Rightarrow> inDegree(dependent \<mapsto> n - 1))"

text \<open>
  \<open>adjacency.get(type)\<close> in the loop over the current level. The elements of the
  current level come from \<open>agentTypes\<close>, so they have an entry; the \<open>None\<close> branch
  only makes the function total.
\<close>

definition dependents_of :: "adjacency \<Rightarrow> string \<Rightarrow> string list" where
  "dependents_of adjacency type = (case adjacency type of None \<Rightarrow> [] | Some ds \<Rightarrow> ds)"

definition release_level :: "adjacency \<Rightarrow> string list \<Rightarrow> in_degree \<Rightarrow> in_degree" where
  "release_level adjacency currentLevel =
     fold (\<lambda>type. fold decrement (dependents_of adjacency type)) currentLevel"

function kahn_loop ::
  "adjacency \<Rightarrow> in_degree \<Rightarrow> string list \<Rightarrow> string list list
     \<Rightarrow> topo_error + string list list" where
  "kahn_loop adjacency inDegree remaining levels =
     (if length remaining > 0 then
        (if length (filter (\<lambda>type. inDegree type = Some 0) remaining) = 0
         then Inl CircularDependency
         else kahn_loop adjacency
                (release_level adjacency (filter (\<lambda>type. inDegree type = Some 0) remaining)
                   inDegree)
                (filter (\<lambda>type. type \<notin> set (filter (\<lambda>type. inDegree type = Some 0) remaining))
                   remaining)
                (levels @ [filter (\<lambda>type. inDegree type = Some 0) remaining]))
      else Inr levels)"
  by pat_completeness auto
termination
proof (relation "measure (\<lambda>(adjacency, inDegree, remaining, levels). length remaining)")
  show "wf (measure (\<lambda>(adjacency, inDegree, remaining, levels). length remaining))"
    by simp
next
  fix adjacency :: adjacency and inDegree :: in_degree
    and remaining :: "string list" and levels :: "string list list"
  assume "\<not> length (filter (\<lambda>type. inDegree type = Some 0) remaining) = 0"
  then obtain x where x: "x \<in> set remaining" "inDegree x = Some 0"
    by (auto simp: filter_empty_conv)
  then have "length (filter (\<lambda>type. type \<notin> set (filter (\<lambda>type. inDegree type = Some 0) remaining))
      remaining) < length remaining"
    by (intro length_filter_less[of x]) auto
  then show "((adjacency, release_level adjacency
        (filter (\<lambda>type. inDegree type = Some 0) remaining) inDegree,
      filter (\<lambda>type. type \<notin> set (filter (\<lambda>type. inDegree type = Some 0) remaining)) remaining,
      levels @ [filter (\<lambda>type. inDegree type = Some 0) remaining]),
      (adjacency, inDegree, remaining, levels))
    \<in> measure (\<lambda>(adjacency, inDegree, remaining, levels). length remaining)"
    by simp
qed

declare kahn_loop.simps [simp del]

definition topologicalSortAgents ::
  "(string \<rightharpoonup> agent_config) \<Rightarrow> string list \<Rightarrow> topo_error + string list list" where
  "topologicalSortAgents configs agentTypes =
     (case graph_build configs agentTypes (graph_init agentTypes) of
        (inDegree, adjacency) \<Rightarrow> kahn_loop adjacency inDegree agentTypes [])"

text \<open>The dependency relation restricted to a list of tags: \<open>(d, t)\<close> when \<open>t\<close>
  declares \<open>d\<close> and both are in the list.\<close>

definition dep_rel :: "(string \<rightharpoonup> agent_config) \<Rightarrow> string list \<Rightarrow> (string \<times> string) set" where
  "dep_rel configs agentTypes =
     {(d, t). t \<in> set agentTypes \<and> d \<in> set (subset_deps configs agentTypes t)}"

text \<open>The index of the first level that holds a tag.\<close>

fun level_of :: "string list list \<Rightarrow> string \<Rightarrow> nat option" where
  "level_of [] t = None"
| "level_of (l # ls) t =
     (if t \<in> set l then Some 0 else map_option Suc (level_of ls t))"

text \<open>
  What holds at the head of the loop: each counter is the number of the tag's dependencies
  that are still waiting, and the levels built so far hold the tags that no longer wait,
  each after all its dependencies.
\<close>

definition counters_ok ::
  "(string \<rightharpoonup> agent_config) \<Rightarrow> string list \<Rightarrow> in_degree \<Rightarrow> string list \<Rightarrow> bool" where
  "counters_ok configs ts inDegree remaining \<longleftrightarrow>
     distinct remaining \<and> set remaining \<subseteq> set ts \<and>
     (\<forall>t \<in> set ts. inDegree t =
        Some (int (length (filter (\<lambda>d. d \<in> set remaining) (subset_deps configs ts t)))))"

definition levels_ok ::
  "(string \<rightharpoonup> agent_config) \<Rightarrow> string list \<Rightarrow> string list \<Rightarrow> string list list \<Rightarrow> bool" where
  "levels_ok configs ts remaining levels \<longleftrightarrow>
     distinct (concat levels) \<and> set (concat levels) = set ts - set remaining \<and>
     (\<forall>t \<in> set (concat levels). \<forall>d \<in> set (subset_deps configs ts t).
        \<exists>i j. level_of levels d = Some i \<and> level_of levels t = Some j \<and> i < j)"

section \<open>Model selector\<close>

definition DEFAULT_MODEL_MAPPINGS :: "string \<rightharpoonup> string" where
  "DEFAULT_MODEL_MAPPINGS = map_of
     [(''PM'', OPUS), (''ARCHITECT'', OPUS), (''UIUX'', SONNET), (''TL_FRONTEND'', SONNET),
      (''TL_BACKEND'', SONNET), (''DEV_FRONTEND'', SONNET), (''DEV_BACKEND'', SONNET),
      (''TEST'', SONNET), (''CQR'', SONNET), (''SR'', OPUS), (''DOE'', HAIKU)]"

definition MODEL_HIERARCHY :: "string \<rightharpoonup> nat" where
  "MODEL_HIERARCHY = map_of [(HAIKU, 0), (SONNET, 1), (OPUS, 2)]"

text \<open>A tier is a string; the selector is configured from the command line and never
  checks that its maximum tier or an override is one of the three names.\<close>

record selector_options =
  maxTier :: string
  overrides :: "string \<rightharpoonup> string"
  optimizeCost :: bool

definition default_selector_options :: selector_options where
  "default_selector_options = \<lparr>maxTier = OPUS, overrides = Map.empty, optimizeCost = False\<rparr>"

definition isValidTier :: "string \<Rightarrow> bool" where
  "isValidTier tier = (tier \<in> set [OPUS, SONNET, HAIKU])"

definition value_of :: "string property \<Rightarrow> tier_value option" where
  "value_of p = (case p of Undefined \<Rightarrow> None
                          | Own s \<Rightarrow> Some (TierName s)
                          | Inherited m \<Rightarrow> Some (InheritedMember m))"

text \<open>
  \<open>MODEL_HIERARCHY[tier]\<close>. An inherited member used as a key is first turned into a
  string, the source text of the function or \<open>[object Object]\<close>, which names no property.
\<close>

definition hierarchy_level :: "tier_value \<Rightarrow> nat property" where
  "hierarchy_level tier =
     (case tier of TierName s \<Rightarrow> get_property MODEL_HIERARCHY s
                 | InheritedMember m \<Rightarrow> Undefined)"

text \<open>\<open>a ?? b\<close> on looked-up values.\<close>

definition nullish :: "'a property \<Rightarrow> 'a property \<Rightarrow> 'a property" where
  "nullish a b = (case a of Undefined \<Rightarrow> b | Own v \<Rightarrow> Own v | Inherited m \<Rightarrow> Inherited m)"

text \<open>\<open>a > b\<close> on looked-up levels; a comparison with \<open>undefined\<close> or with an
  inherited member is a comparison with \<open>NaN\<close>, which is false.\<close>

definition js_greater :: "nat property \<Rightarrow> nat property \<Rightarrow> bool" where
  "js_greater a b = (case (a, b) of (Own x, Own y) \<Rightarrow> x > y | _ \<Rightarrow> False)"

definition enforceMaxTier :: "selector_options \<Rightarrow> tier_value \<Rightarrow> tier_value" where
  "enforceMaxTier opts tier =
     (let maxLevel = nullish (hierarchy_level (TierName (maxTier opts)))
                       (hierarchy_level (TierName OPUS));
          requestedLevel = nullish (hierarchy_level tier) (hierarchy_level (TierName SONNET))
      in if js_greater requestedLevel maxLevel then TierName (maxTier opts) else tier)"

definition downgrade :: "tier_value \<Rightarrow> tier_value" where
  "downgrade tier =
     (let level = hierarchy_level tier
      in if level = Own 0 then TierName HAIKU
         else if level = Own 1 then TierName HAIKU
         else TierName SONNET)"

definition upgrade :: "tier_value \<Rightarrow> tier_value" where
  "upgrade tier =
     (let level = hierarchy_level tier
      in if level = Own 0 then TierName SONNET
         else if level = Own 1 then TierName OPUS
         else TierName OPUS)"

text \<open>\<open>a || b\<close> on such values: \<open>undefined\<close> and the empty string are falsy.\<close>

definition or_else :: "tier_value option \<Rightarrow> tier_value option \<Rightarrow> tier_value option" where
  "or_else a b = (case a of None \<Rightarrow> b
                          | Some (TierName s) \<Rightarrow> if s = [] then b else Some (TierName s)
                          | Some (InheritedMember m) \<Rightarrow> Some (InheritedMember m))"

text \<open>\<open>agentConfig?.defaultModel\<close> for \<open>agentConfig = AGENT_CONFIGS[agentType]\<close>: an
  inherited member has no property \<open>defaultModel\<close>.\<close>

definition config_defaultModel :: "agent_config property \<Rightarrow> tier_value option" where
  "config_defaultModel agentConfig =
     (case agentConfig of Undefined \<Rightarrow> None
                        | Own config \<Rightarrow> Some (TierName (defaultModel config))
                        | Inherited m \<Rightarrow> None)"

definition selectModel ::
  "selector_options \<Rightarrow> (string \<rightharpoonup> agent_config) \<Rightarrow> string \<Rightarrow> js_context \<Rightarrow> tier_value" where
  "selectModel opts configs agentType context =
     (case or_else (value_of (get_property (overrides opts) agentType)) None of
        Some override \<Rightarrow> enforceMaxTier opts override
      | None \<Rightarrow>
          (let selectedModel =
                 (case or_else (config_defaultModel (get_property configs agentType))
                         (or_else (value_of (get_property DEFAULT_MODEL_MAPPINGS agentType))
                            (Some (TierName SONNET))) of
                    None \<Rightarrow> TierName SONNET
                  | Some m \<Rightarrow> m);
               selectedModel' =
                 (if context ''complexity'' = Some (JStr ''low'') \<and> optimizeCost opts
                  then downgrade selectedModel
                  else if context ''complexity'' = Some (JStr ''high'')
                  then upgrade selectedModel
                  else selectedModel)
           in enforceMaxTier opts selectedModel'))"

section \<open>Workflow engine\<close>

text \<open>
  The engine works on a run (an object in memory) and on the session manager. Its
  collaborators are outside the orchestration core: the agent configuration table and the
  workflow table, the configured model selector, the version-control and pull-request
  services, and what happens between the creation of an agent's task and the commit of its
  artifacts (task store, Claude command line, response parser). They are the fields of
  \<open>collaborators\<close>; each external call is a function of the run at the moment of the call,
  so that it may answer differently at every attempt. The registry of active runs, the
  emitted events, the generated execution ids and the start and end times are not modelled;
  the two uuids drawn by \<open>startWorkflow\<close> and the one drawn by \<open>resumeWorkflow\<close> are
  arguments.
\<close>

datatype StageExecutionMode = Sequential | Parallel

datatype PRFailureMode = PrFail | PrWarn

datatype WorkflowStatus = WfPending | WfRunning | WfPaused | WfCompleted | WfFailed | WfCancelled

abbreviation SPAWNING :: string where "SPAWNING \<equiv> ''spawning''"
abbreviation RUNNING :: string where "RUNNING \<equiv> ''running''"
abbreviation COMPLETED :: string where "COMPLETED \<equiv> ''completed''"
abbreviation FAILED :: string where "FAILED \<equiv> ''failed''"

record stage_definition =
  stage_name :: string
  agents :: "string list"
  executionMode :: StageExecutionMode

record workflow_definition =
  wf_id :: string
  wf_name :: string
  stages :: "stage_definition list"
  wf_createPR :: bool
  wf_prFailureMode :: "PRFailureMode option"

datatype workflow_ref = WorkflowId string | WorkflowObject workflow_definition

record agent_execution =
  ex_agentType :: string
  ex_taskId :: "string option"
  ex_status :: string
  ex_output :: "agent_output option"
  ex_error :: "string option"
  ex_model :: "tier_value option"

record workflow_run =
  run_id :: string
  run_workflowId :: string
  run_workflowDef :: workflow_definition
  run_sessionId :: string
  run_status :: WorkflowStatus
  run_context :: js_context
  currentStageIndex :: int
  agentExecutions :: "agent_execution list"
  completedAgents :: "string list"
  gitBranch :: "jsval option"
  run_error :: "string option"
  run_opts :: run_options
  prUrl :: "string option"

datatype engine_error =
    UnknownWorkflow string
  | WorkflowCancelled
  | CannotRestoreSession string
  | TypeError string
  | ExternalError string
  | StoreError sm_error

text \<open>\<open>error.message\<close>. For a \<open>TypeError\<close> raised by the runtime on a property of
  \<open>undefined\<close> the message names the property.\<close>

fun message :: "engine_error \<Rightarrow> string" where
  "message (UnknownWorkflow d) = ''Unknown workflow: '' @ d"
| "message WorkflowCancelled = ''Workflow cancelled''"
| "message (CannotRestoreSession sessionId) = ''Cannot restore session: '' @ sessionId"
| "message (TypeError property) = ''Cannot read properties of undefined: '' @ property"
| "message (ExternalError m) = m"
| "message (StoreError (SessionNotFound sessionId)) = ''Session not found: '' @ sessionId"
| "message (StoreError CannotResumeCompleted) = ''Cannot resume completed session''"
| "message (StoreError NoCheckpoints) = ''No checkpoints available for resumption''"

text \<open>
  What lines 317 to 372 of \<open>spawnAndExecuteAgent\<close> yield once the dependency outputs are
  gathered: a failure, with the task id if the task had been created and the message of the
  error, or the task id and the parsed output.
\<close>

datatype attempt_outcome =
    AttemptFailed "string option" string
  | AttemptSucceeded string agent_output

record collaborators =
  getAgentConfig :: "string \<rightharpoonup> agent_config"
  getWorkflow :: "string \<rightharpoonup> workflow_definition"
  selector :: selector_options
  executeAttempt :: "string \<Rightarrow> workflow_run \<Rightarrow> (string \<rightharpoonup> jsval) \<Rightarrow> attempt_outcome"
  elapsedTime :: "workflow_run \<Rightarrow> nat"
  createWorkflowBranch :: "workflow_run \<Rightarrow> string + string"
  createPR :: "workflow_run \<Rightarrow> string + string"

text \<open>A JavaScript \<open>Set\<close> of strings, in insertion order.\<close>

definition set_add :: "string \<Rightarrow> string list \<Rightarrow> string list" where
  "set_add a xs = (if a \<in> set xs then xs else xs @ [a])"

definition new_Set :: "string list \<Rightarrow> string list" where
  "new_Set xs = fold set_add xs []"

definition gatherDependencyOutputs ::
  "collaborators \<Rightarrow> workflow_run \<Rightarrow> string \<Rightarrow> engine_error + (string \<rightharpoonup> jsval)" where
  "gatherDependencyOutputs env run agentType =
     (case getAgentConfig env agentType of
        None \<Rightarrow> Inl (TypeError ''dependencies'')
      | Some agentConfig \<Rightarrow>
          Inr (fold (\<lambda>depType outputs.
                       (let depOutput = run_context run (depType @ ''_output'')
                        in if truthy depOutput then outputs(depType := depOutput) else outputs))
                 (dependencies agentConfig) Map.empty))"

definition try_agent :: "collaborators \<Rightarrow> workflow_run \<Rightarrow> string \<Rightarrow> attempt_outcome" where
  "try_agent env run agentType =
     (case gatherDependencyOutputs env run agentType of
        Inl e \<Rightarrow> AttemptFailed None (message e)
      | Inr dependencyOutputs \<Rightarrow> executeAttempt env agentType run dependencyOutputs)"

text \<open>
  \<open>run.context[key] || 0\<close>, then \<open>retries < agentConfig.maxRetries\<close>. The engine itself
  only writes numbers under a retry key. An agent output found there compares as \<open>NaN\<close>,
  which is below nothing; a non-empty string is treated in the same way (JavaScript would
  first read it as a number).
\<close>

definition or_zero :: "jsval option \<Rightarrow> jsval" where
  "or_zero v = (case v of None \<Rightarrow> JNum 0 | Some x \<Rightarrow> if truthy (Some x) then x else JNum 0)"

function spawnAndExecuteAgent ::
  "collaborators \<Rightarrow> workflow_run \<Rightarrow> session_store \<Rightarrow> string
     \<Rightarrow> (engine_error + agent_execution) \<times> workflow_run \<times> session_store" where
  "spawnAndExecuteAgent env run sm agentType =
     (let execution = \<lparr>ex_agentType = agentType, ex_taskId = None, ex_status = SPAWNING,
            ex_output = None, ex_error = None,
            ex_model = Some (selectModel (selector env) (getAgentConfig env) agentType
                               (run_context run))\<rparr>;
          n = length (agentExecutions run);
          run1 = run\<lparr>agentExecutions := agentExecutions run @ [execution]\<rparr>;
          sm1 = addLog sm (run_sessionId run)
                  (LogAgentSpawned agentType
                     (selectModel (selector env) (getAgentConfig env) agentType (run_context run)))
      in case try_agent env run1 agentType of
           AttemptSucceeded taskId output \<Rightarrow>
             (let execution' = execution\<lparr>ex_taskId := Some taskId, ex_status := COMPLETED,
                    ex_output := Some output\<rparr>;
                  run2 = run1\<lparr>agentExecutions := (agentExecutions run1)[n := execution'],
                    run_context := (run_context run1)(agentType @ ''_output'' \<mapsto> JOut output),
                    completedAgents := set_add agentType (completedAgents run1)\<rparr>;
                  sm2 = recordAgentExecution sm1 (run_sessionId run)
                          \<lparr>er_agentType = agentType, er_status = COMPLETED,
                           er_tokensUsed = tokensUsed output, er_error = None,
                           er_executionTime = Some (elapsedTime env run1)\<rparr>
              in (Inr execution', run2, sm2))
         | AttemptFailed taskId msg \<Rightarrow>
             (let execution' = execution\<lparr>ex_taskId := taskId, ex_status := FAILED,
                    ex_error := Some msg\<rparr>;
                  run2 = run1\<lparr>agentExecutions := (agentExecutions run1)[n := execution']\<rparr>;
                  sm2 = recordAgentExecution sm1 (run_sessionId run)
                          \<lparr>er_agentType = agentType, er_status = FAILED,
                           er_tokensUsed = None, er_error = Some msg,
                           er_executionTime = Some (elapsedTime env run1)\<rparr>
              in case getAgentConfig env agentType of
                   None \<Rightarrow> (Inl (TypeError ''maxRetries''), run2, sm2)
                 | Some agentConfig \<Rightarrow>
                     (case or_zero (run_context run2 (agentType @ ''_retries'')) of
                        JNum retries \<Rightarrow>
                          if retries < maxRetries agentConfig
                          then spawnAndExecuteAgent env
                                 (run2\<lparr>run_context := (run_context run2)
                                    (agentType @ ''_retries'' \<mapsto> JNum (retries + 1))\<rparr>)
                                 (addLog sm2 (run_sessionId run)
                                    (LogAgentRetry agentType (retries + 1)))
                                 agentType
                          else (Inl (ExternalError msg), run2, sm2)
                      | JStr s \<Rightarrow> (Inl (ExternalError msg), run2, sm2)
                      | JOut out \<Rightarrow> (Inl (ExternalError msg), run2, sm2))))"
  by pat_completeness auto
termination
proof (relation "measure (\<lambda>(env, run, sm, agentType).
    case getAgentConfig env agentType of
      None \<Rightarrow> 0
    | Some agentConfig \<Rightarrow>
        (case or_zero (run_context run (agentType @ ''_retries'')) of
           JNum retries \<Rightarrow> nat (maxRetries agentConfig - retries)
         | JStr s \<Rightarrow> 0
         | JOut out \<Rightarrow> 0))", goal_cases)
  case 1
  show ?case by simp
next
  case (2 env run sm agentType execution n run1 sm1 taskId msg execution' run2 sm2 agentConfig
      retries)
  have ctx: "run_context run2 = run_context run"
    using 2 by simp
  have "or_zero (Some (JNum (retries + 1))) = JNum (retries + 1)"
    by (simp add: or_zero_def)
  with 2 ctx show ?case by simp
qed

declare spawnAndExecuteAgent.simps [simp del]

text \<open>A sequential stage: one agent after the other, stopping at the first that throws.\<close>

fun run_sequentially ::
  "collaborators \<Rightarrow> workflow_run \<Rightarrow> session_store \<Rightarrow> string list
     \<Rightarrow> (engine_error + unit) \<times> workflow_run \<times> session_store" where
  "run_sequentially env run sm [] = (Inr (), run, sm)"
| "run_sequentially env run sm (agentType # rest) =
     (case spawnAndExecuteAgent env run sm agentType of
        (Inl e, run', sm') \<Rightarrow> (Inl e, run', sm')
      | (Inr execution, run', sm') \<Rightarrow> run_sequentially env run' sm' rest)"

text \<open>
  A parallel stage hands all its agents to \<open>Promise.all\<close>. The agents then run
  interleaved and every one of them runs to its end, while the stage throws the first error
  raised. The model runs them to their ends one after the other in the order of the list,
  which is one serialisation of that, and returns the first error; the statements below that
  depend on the order within a stage are made for sequential stages.
\<close>

fun run_all ::
  "collaborators \<Rightarrow> workflow_run \<Rightarrow> session_store \<Rightarrow> string list
     \<Rightarrow> (engine_error + unit) \<times> workflow_run \<times> session_store" where
  "run_all env run sm [] = (Inr (), run, sm)"
| "run_all env run sm (agentType # rest) =
     (case spawnAndExecuteAgent env run sm agentType of
        (r, run', sm') \<Rightarrow>
          (case run_all env run' sm' rest of
             (r', run'', sm'') \<Rightarrow>
               ((case r of Inl e \<Rightarrow> Inl e | Inr execution \<Rightarrow> r'), run'', sm'')))"

definition executeStage ::
  "collaborators \<Rightarrow> workflow_run \<Rightarrow> session_store \<Rightarrow> stage_definition
     \<Rightarrow> (engine_error + unit) \<times> workflow_run \<times> session_store" where
  "executeStage env run sm stage =
     (let agentsToRun = filter (\<lambda>a. a \<notin> set (completedAgents run)) (agents stage)
      in if length agentsToRun = 0 then (Inr (), run, sm)
         else if executionMode stage = Parallel then run_all env run sm agentsToRun
         else run_sequentially env run sm agentsToRun)"

text \<open>The loop of \<open>executeWorkflow\<close> over the stage index \<open>i\<close>; a negative index reads
  \<open>undefined\<close> from the stage array and fails on its \<open>name\<close>.\<close>

function stage_loop ::
  "collaborators \<Rightarrow> stage_definition list \<Rightarrow> int \<Rightarrow> workflow_run \<Rightarrow> session_store
     \<Rightarrow> (engine_error + unit) \<times> workflow_run \<times> session_store" where
  "stage_loop env stgs i run sm =
     (if i < int (length stgs) then
        (if run_status run = WfCancelled then (Inl WorkflowCancelled, run, sm)
         else if i < 0 then (Inl (TypeError ''name''), run\<lparr>currentStageIndex := i\<rparr>, sm)
         else
           (case executeStage env (run\<lparr>currentStageIndex := i\<rparr>)
                   (addLog sm (run_sessionId run) (LogStageStarted i (stage_name (stgs ! nat i))))
                   (stgs ! nat i) of
              (Inl e, run2, sm2) \<Rightarrow> (Inl e, run2, sm2)
            | (Inr u, run2, sm2) \<Rightarrow>
                (case checkpoint sm2 (run_sessionId run2)
                        \<lparr>d_stageIndex = i, d_stageName = stage_name (stgs ! nat i),
                         d_completedAgents = Some (completedAgents run2),
                         d_state = Some \<lparr>st_currentStageIndex = i + 1,
                                          st_context = run_context run2\<rparr>\<rparr> of
                   Inl e \<Rightarrow> (Inl (StoreError e), run2, sm2)
                 | Inr (cp, sm3) \<Rightarrow> stage_loop env stgs (i + 1) run2 sm3)))
      else (Inr (), run, sm))"
  by pat_completeness auto
termination
  by (relation "measure (\<lambda>(env, stgs, i, run, sm). nat (int (length stgs) - i))") auto

declare stage_loop.simps [simp del]

definition executeWorkflow ::
  "collaborators \<Rightarrow> workflow_run \<Rightarrow> session_store
     \<Rightarrow> (engine_error + unit) \<times> workflow_run \<times> session_store" where
  "executeWorkflow env run sm =
     stage_loop env (stages (run_workflowDef run)) (currentStageIndex run) run sm"

definition createWorkflowPR ::
  "collaborators \<Rightarrow> workflow_run \<Rightarrow> session_store
     \<Rightarrow> (engine_error + unit) \<times> workflow_run \<times> session_store" where
  "createWorkflowPR env run sm =
     (case createPR env run of
        Inr url \<Rightarrow>
          (Inr (), run\<lparr>prUrl := Some url\<rparr>, addLog sm (run_sessionId run) (LogPrCreated url))
      | Inl msg \<Rightarrow>
          (let failureMode = (case wf_prFailureMode (run_workflowDef run) of
                                None \<Rightarrow> PrWarn | Some m \<Rightarrow> m)
           in if failureMode = PrFail then (Inl (ExternalError msg), run, sm)
              else (Inr (), run, addLog sm (run_sessionId run) (LogPrFailed msg))))"

text \<open>The part of the two \<open>try\<close> blocks that \<open>startWorkflow\<close> and \<open>resumeWorkflow\<close>
  share: the stages, then the pull request if one is configured and a branch is known.\<close>

definition execute_then_pr ::
  "collaborators \<Rightarrow> workflow_run \<Rightarrow> session_store
     \<Rightarrow> (engine_error + unit) \<times> workflow_run \<times> session_store" where
  "execute_then_pr env run sm =
     (case executeWorkflow env run sm of
        (Inl e, run', sm') \<Rightarrow> (Inl e, run', sm')
      | (Inr u, run', sm') \<Rightarrow>
          if wf_createPR (run_workflowDef run') \<and> truthy (gitBranch run')
          then createWorkflowPR env run' sm'
          else (Inr (), run', sm'))"

text \<open>The \<open>catch\<close> block of both: mark the run and the session failed and throw the error
  again (or the error of \<open>markFailed\<close>, if that throws).\<close>

definition catch_failure ::
  "string \<Rightarrow> engine_error \<Rightarrow> workflow_run \<Rightarrow> session_store
     \<Rightarrow> (engine_error + unit) \<times> workflow_run option \<times> session_store" where
  "catch_failure sessionId error run sm =
     (let run' = run\<lparr>run_status := WfFailed, run_error := Some (message error)\<rparr>
      in case markFailed sm sessionId (message error) of
           Inl e \<Rightarrow> (Inl (StoreError e), Some run', sm)
         | Inr sm' \<Rightarrow> (Inl error, Some run', sm'))"

definition string_of_jsval :: "jsval option \<Rightarrow> string option" where
  "string_of_jsval v = (case v of Some (JStr s) \<Rightarrow> Some s | _ \<Rightarrow> None)"

definition startWorkflow ::
  "collaborators \<Rightarrow> workflow_ref \<Rightarrow> js_context \<Rightarrow> run_options \<Rightarrow> string \<Rightarrow> string
     \<Rightarrow> session_store \<Rightarrow> (engine_error + unit) \<times> workflow_run option \<times> session_store" where
  "startWorkflow env definition context options sessionId runId sm =
     (case (case definition of WorkflowId d \<Rightarrow> getWorkflow env d
                             | WorkflowObject def \<Rightarrow> Some def) of
        None \<Rightarrow>
          (Inl (UnknownWorkflow (case definition of WorkflowId d \<Rightarrow> d
                                                   | WorkflowObject def \<Rightarrow> ''[object Object]'')),
           None, sm)
      | Some workflowDef \<Rightarrow>
          (case createSession sm sessionId (wf_id workflowDef) (Some context) options of
             (session, sm1) \<Rightarrow>
               (let run = \<lparr>run_id = runId, run_workflowId = wf_id workflowDef,
                      run_workflowDef = workflowDef, run_sessionId = sess_id session,
                      run_status = WfRunning, run_context = context, currentStageIndex = 0,
                      agentExecutions = [], completedAgents = [], gitBranch = None,
                      run_error = None, run_opts = options, prUrl = None\<rparr>;
                    sm2 = addLog sm1 (sess_id session)
                            (LogWorkflowStarted (wf_id workflowDef) runId)
                in case (if createBranch options \<noteq> Some False
                         then (case createWorkflowBranch env run of
                                 Inl msg \<Rightarrow> Inl (ExternalError msg)
                               | Inr branchName \<Rightarrow>
                                   Inr (run\<lparr>gitBranch := Some (JStr branchName)\<rparr>))
                         else Inr run) of
                     Inl e \<Rightarrow> catch_failure (sess_id session) e run sm2
                   | Inr run1 \<Rightarrow>
                       (case execute_then_pr env run1 sm2 of
                          (Inl e, run2, sm3) \<Rightarrow> catch_failure (sess_id session) e run2 sm3
                        | (Inr u, run2, sm3) \<Rightarrow>
                            (let run3 = run2\<lparr>run_status := WfCompleted\<rparr>
                             in case markCompleted sm3 (sess_id session)
                                       (Some \<lparr>res_runId = run_id run3,
                                              res_gitBranch = string_of_jsval (gitBranch run3)\<rparr>) of
                                  Inl e \<Rightarrow> catch_failure (sess_id session) (StoreError e) run3 sm3
                                | Inr sm4 \<Rightarrow> (Inr (), Some run3, sm4))))))"

text \<open>The run that \<open>resumeWorkflow\<close> builds from what \<open>restore\<close> returned (lines 622 to
  637). \<open>checkpoint?.stageIndex + 1 || session.currentStage\<close> falls back to the session's
  stage when there is no checkpoint (the sum is \<open>NaN\<close>) and when the sum is \<open>0\<close>. The
  execution records of the session become the run's first executions.\<close>

definition execution_of_record :: "execution_record \<Rightarrow> agent_execution" where
  "execution_of_record r =
     \<lparr>ex_agentType = er_agentType r, ex_taskId = None, ex_status = er_status r,
      ex_output = None, ex_error = er_error r, ex_model = None\<rparr>"

definition resumeRun ::
  "string \<Rightarrow> workflow_definition \<Rightarrow> session \<Rightarrow> checkpoint option \<Rightarrow> workflow_run" where
  "resumeRun runId workflowDef session cp =
     \<lparr>run_id = runId, run_workflowId = sess_workflowId session, run_workflowDef = workflowDef,
      run_sessionId = sess_id session, run_status = WfRunning,
      run_context = sess_context session,
      currentStageIndex =
        (case cp of
           None \<Rightarrow> currentStage session
         | Some c \<Rightarrow> if cp_stageIndex c + 1 = 0 then currentStage session
                     else cp_stageIndex c + 1),
      agentExecutions = map execution_of_record (md_agentExecutions (metadata session)),
      completedAgents = new_Set (sess_completedAgents session),
      gitBranch = (if truthy (sess_context session ''gitBranch'')
                   then sess_context session ''gitBranch'' else None),
      run_error = None, run_opts = sess_options session, prUrl = None\<rparr>"

text \<open>The \<open>try\<close> and \<open>catch\<close> of \<open>resumeWorkflow\<close> (lines 647 to 671), on
  the run built above.\<close>

definition resume_try ::
  "collaborators \<Rightarrow> string \<Rightarrow> workflow_run \<Rightarrow> session_store
     \<Rightarrow> (engine_error + unit) \<times> workflow_run option \<times> session_store" where
  "resume_try env sessionId run sm =
     (case execute_then_pr env run sm of
        (Inl e, run2, sm2) \<Rightarrow> catch_failure sessionId e run2 sm2
      | (Inr u, run2, sm2) \<Rightarrow>
          (let run3 = run2\<lparr>run_status := WfCompleted\<rparr>
           in case markCompleted sm2 sessionId
                     (Some \<lparr>res_runId = run_id run3, res_gitBranch = None\<rparr>) of
                Inl e \<Rightarrow> catch_failure sessionId (StoreError e) run3 sm2
              | Inr sm3 \<Rightarrow> (Inr (), Some run3, sm3)))"

definition resumeWorkflow ::
  "collaborators \<Rightarrow> string \<Rightarrow> string \<Rightarrow> session_store
     \<Rightarrow> (engine_error + unit) \<times> workflow_run option \<times> session_store" where
  "resumeWorkflow env sessionId runId sm =
     (case restore sm sessionId of
        Inl e \<Rightarrow> (Inl (StoreError e), None, sm)
      | Inr (None, sm1) \<Rightarrow> (Inl (CannotRestoreSession sessionId), None, sm1)
      | Inr (Some (session, cp), sm1) \<Rightarrow>
          (case getWorkflow env (sess_workflowId session) of
             None \<Rightarrow> (Inl (UnknownWorkflow (sess_workflowId session)), None, sm1)
           | Some workflowDef \<Rightarrow>
               resume_try env sessionId (resumeRun runId workflowDef session cp) sm1))"

section \<open>Names for the steps of the engine\<close>

text \<open>
  The intermediate values of \<open>spawnAndExecuteAgent\<close> and of the start of
  \<open>startWorkflow\<close>, named so that the properties below can speak of them: the execution
  record, the run and the store after the spawn, after a successful attempt, after a failed
  one and before a retry.
\<close>

definition spawn_execution :: "collaborators \<Rightarrow> workflow_run \<Rightarrow> string \<Rightarrow> agent_execution" where
  "spawn_execution env run agentType =
     \<lparr>ex_agentType = agentType, ex_taskId = None, ex_status = SPAWNING,
      ex_output = None, ex_error = None,
      ex_model = Some (selectModel (selector env) (getAgentConfig env) agentType
                         (run_context run))\<rparr>"

definition spawn_run :: "collaborators \<Rightarrow> workflow_run \<Rightarrow> string \<Rightarrow> workflow_run" where
  "spawn_run env run agentType =
     run\<lparr>agentExecutions := agentExecutions run @ [spawn_execution env run agentType]\<rparr>"

definition spawn_store ::
  "collaborators \<Rightarrow> workflow_run \<Rightarrow> session_store \<Rightarrow> string \<Rightarrow> session_store" where
  "spawn_store env run sm agentType =
     addLog sm (run_sessionId run)
       (LogAgentSpawned agentType
          (selectModel (selector env) (getAgentConfig env) agentType (run_context run)))"

definition succeeded_execution ::
  "collaborators \<Rightarrow> workflow_run \<Rightarrow> string \<Rightarrow> string \<Rightarrow> agent_output \<Rightarrow> agent_execution" where
  "succeeded_execution env run agentType taskId output =
     (spawn_execution env run agentType)\<lparr>ex_taskId := Some taskId, ex_status := COMPLETED,
        ex_output := Some output\<rparr>"

definition succeeded_run ::
  "collaborators \<Rightarrow> workflow_run \<Rightarrow> string \<Rightarrow> string \<Rightarrow> agent_output \<Rightarrow> workflow_run" where
  "succeeded_run env run agentType taskId output =
     (spawn_run env run agentType)\<lparr>agentExecutions :=
         (agentExecutions (spawn_run env run agentType))[length (agentExecutions run) :=
            succeeded_execution env run agentType taskId output],
       run_context := (run_context (spawn_run env run agentType))
         (agentType @ ''_output'' \<mapsto> JOut output),
       completedAgents := set_add agentType (completedAgents (spawn_run env run agentType))\<rparr>"

definition succeeded_store ::
  "collaborators \<Rightarrow> workflow_run \<Rightarrow> session_store \<Rightarrow> string \<Rightarrow> agent_output \<Rightarrow> session_store" where
  "succeeded_store env run sm agentType output =
     recordAgentExecution (spawn_store env run sm agentType) (run_sessionId run)
       \<lparr>er_agentType = agentType, er_status = COMPLETED,
        er_tokensUsed = tokensUsed output, er_error = None,
        er_executionTime = Some (elapsedTime env (spawn_run env run agentType))\<rparr>"

definition failed_execution ::
  "collaborators \<Rightarrow> workflow_run \<Rightarrow> string \<Rightarrow> string option \<Rightarrow> string \<Rightarrow> agent_execution" where
  "failed_execution env run agentType taskId msg =
     (spawn_execution env run agentType)\<lparr>ex_taskId := taskId, ex_status := FAILED,
        ex_error := Some msg\<rparr>"

definition failed_run ::
  "collaborators \<Rightarrow> workflow_run \<Rightarrow> string \<Rightarrow> string option \<Rightarrow> string \<Rightarrow> workflow_run" where
  "failed_run env run agentType taskId msg =
     (spawn_run env run agentType)\<lparr>agentExecutions :=
         (agentExecutions (spawn_run env run agentType))[length (agentExecutions run) :=
            failed_execution env run agentType taskId msg]\<rparr>"

definition failed_store ::
  "collaborators \<Rightarrow> workflow_run \<Rightarrow> session_store \<Rightarrow> string \<Rightarrow> string \<Rightarrow> session_store" where
  "failed_store env run sm agentType msg =
     recordAgentExecution (spawn_store env run sm agentType) (run_sessionId run)
       \<lparr>er_agentType = agentType, er_status = FAILED,
        er_tokensUsed = None, er_error = Some msg,
        er_executionTime = Some (elapsedTime env (spawn_run env run agentType))\<rparr>"

definition retry_run ::
  "collaborators \<Rightarrow> workflow_run \<Rightarrow> string \<Rightarrow> string option \<Rightarrow> string \<Rightarrow> int \<Rightarrow> workflow_run" where
  "retry_run env run agentType taskId msg retries =
     (failed_run env run agentType taskId msg)\<lparr>run_context :=
        (run_context (failed_run env run agentType taskId msg))
          (agentType @ ''_retries'' \<mapsto> JNum (retries + 1))\<rparr>"

definition retry_store ::
  "collaborators \<Rightarrow> workflow_run \<Rightarrow> session_store \<Rightarrow> string \<Rightarrow> string \<Rightarrow> int \<Rightarrow> session_store" where
  "retry_store env run sm agentType msg retries =
     addLog (failed_store env run sm agentType msg) (run_sessionId run)
       (LogAgentRetry agentType (retries + 1))"

text \<open>Whether a failed attempt is followed by another one.\<close>

definition retries_left :: "collaborators \<Rightarrow> workflow_run \<Rightarrow> string \<Rightarrow> int option" where
  "retries_left env run agentType =
     (case getAgentConfig env agentType of
        None \<Rightarrow> None
      | Some agentConfig \<Rightarrow>
          (case or_zero (run_context run (agentType @ ''_retries'')) of
             JNum retries \<Rightarrow> if retries < maxRetries agentConfig then Some retries else None
           | JStr s \<Rightarrow> None
           | JOut out \<Rightarrow> None))"

definition final_error :: "collaborators \<Rightarrow> string \<Rightarrow> string \<Rightarrow> engine_error" where
  "final_error env agentType msg =
     (case getAgentConfig env agentType of
        None \<Rightarrow> TypeError ''maxRetries''
      | Some agentConfig \<Rightarrow> ExternalError msg)"

definition initial_run :: "workflow_definition \<Rightarrow> js_context \<Rightarrow> run_options \<Rightarrow> string \<Rightarrow> string \<Rightarrow> workflow_run" where
  "initial_run workflowDef context options sessionId runId =
     \<lparr>run_id = runId, run_workflowId = wf_id workflowDef,
      run_workflowDef = workflowDef, run_sessionId = sessionId,
      run_status = WfRunning, run_context = context, currentStageIndex = 0,
      agentExecutions = [], completedAgents = [], gitBranch = None,
      run_error = None, run_opts = options, prUrl = None\<rparr>"

definition branch_step :: "collaborators \<Rightarrow> run_options \<Rightarrow> workflow_run \<Rightarrow> engine_error + workflow_run" where
  "branch_step env options run =
     (if createBranch options \<noteq> Some False
      then (case createWorkflowBranch env run of
              Inl msg \<Rightarrow> Inl (ExternalError msg)
            | Inr branchName \<Rightarrow> Inr (run\<lparr>gitBranch := Some (JStr branchName)\<rparr>))
      else Inr run)"

text \<open>Every session of the first store is still in the second, with the same context.\<close>

definition keeps_context :: "session_store \<Rightarrow> session_store \<Rightarrow> bool" where
  "keeps_context sm sm' \<longleftrightarrow>
     (\<forall>sessionId s. sm sessionId = Some s \<longrightarrow>
        (\<exists>s'. sm' sessionId = Some s' \<and> sess_context s' = sess_context s))"

section \<open>Sequences of session-manager calls\<close>

text \<open>
  The mutating calls the engine makes on one session, and their effect on the store in
  sequence. A call that throws leaves the store as it was: each of them throws before it
  writes.
\<close>

datatype sm_call =
    CallUpdateStatus SessionStatus session_updates
  | CallCheckpoint checkpoint_data
  | CallAddLog log_entry
  | CallRecordAgentExecution execution_record
  | CallRestore

fun perform :: "string \<Rightarrow> sm_call \<Rightarrow> session_store \<Rightarrow> session_store" where
  "perform sessionId (CallUpdateStatus status updates) sm =
     (case updateStatus sm sessionId status updates of Inl e \<Rightarrow> sm | Inr sm' \<Rightarrow> sm')"
| "perform sessionId (CallCheckpoint data) sm =
     (case checkpoint sm sessionId data of Inl e \<Rightarrow> sm | Inr (cp, sm') \<Rightarrow> sm')"
| "perform sessionId (CallAddLog logEntry) sm = addLog sm sessionId logEntry"
| "perform sessionId (CallRecordAgentExecution execution) sm =
     recordAgentExecution sm sessionId execution"
| "perform sessionId CallRestore sm =
     (case restore sm sessionId of Inl e \<Rightarrow> sm | Inr (r, sm') \<Rightarrow> sm')"

fun has_context_key :: "sm_call \<Rightarrow> bool" where
  "has_context_key (CallUpdateStatus status updates) = (u_context updates \<noteq> None)"
| "has_context_key c = False"

fun has_logs_key :: "sm_call \<Rightarrow> bool" where
  "has_logs_key (CallUpdateStatus status updates) = (u_logs updates \<noteq> None)"
| "has_logs_key c = False"

fun call_entry :: "sm_call \<Rightarrow> log_entry list" where
  "call_entry (CallAddLog logEntry) = [logEntry]"
| "call_entry c = []"

section \<open>Example values\<close>

definition example_session :: session where
  "example_session =
     \<lparr>sess_id = ''s1'', sess_status = Running, sess_workflowId = ''BUG_FIX'',
      sess_context = [''projectName'' \<mapsto> JStr ''app''],
      sess_options = \<lparr>createBranch = None\<rparr>, checkpoints = [], logs = [],
      sess_completedAgents = [], currentStage = 0,
      metadata = \<lparr>totalTokens = 0, totalExecutionTime = 0, md_agentExecutions = []\<rparr>,
      sess_error = None, sess_result = None\<rparr>"

definition example_checkpoint :: checkpoint where
  "example_checkpoint =
     \<lparr>cp_sessionId = ''s1'', cp_stageIndex = 0, cp_stageName = ''Investigation'',
      cp_completedAgents = [''PM''], cp_state = None\<rparr>"

text \<open>
  A workflow of two sequential stages, the second of which depends on the first, and
  collaborators for it: the project manager succeeds; the architect times out in the run
  \<open>r1\<close>, and in any other run succeeds if it is given the project manager's output and
  fails without it. No branch can be created. The session and the checkpoint are what
  \<open>startWorkflow\<close> leaves in the store for this workflow in run \<open>r1\<close> (lemma
  \<open>start_eval\<close> below).
\<close>

definition planning_workflow :: workflow_definition where
  "planning_workflow =
     \<lparr>wf_id = ''PLAN'', wf_name = ''Plan and design'',
      stages = [\<lparr>stage_name = ''Planning'', agents = [''PM''], executionMode = Sequential\<rparr>,
                \<lparr>stage_name = ''Architecture'', agents = [''ARCHITECT''],
                 executionMode = Sequential\<rparr>],
      wf_createPR = False, wf_prFailureMode = None\<rparr>"

definition example_env :: collaborators where
  "example_env =
     \<lparr>getAgentConfig = AGENT_CONFIGS, getWorkflow = [''PLAN'' \<mapsto> planning_workflow],
      selector = default_selector_options,
      executeAttempt = (\<lambda>agentType run deps.
         if agentType = ''PM''
         then AttemptSucceeded ''task-1'' \<lparr>summary = ''plan'', tokensUsed = Some 100\<rparr>
         else if run_id run = ''r1'' then AttemptFailed None ''timeout''
         else (case deps ''PM'' of
                 None \<Rightarrow> AttemptFailed None ''PM output missing''
               | Some v \<Rightarrow> AttemptSucceeded ''task-2''
                             \<lparr>summary = ''design'', tokensUsed = Some 200\<rparr>)),
      elapsedTime = (\<lambda>run. 2),
      createWorkflowBranch = (\<lambda>run. Inl ''git unavailable''),
      createPR = (\<lambda>run. Inl ''no remote'')\<rparr>"

definition example_plan_output :: agent_output where
  "example_plan_output = \<lparr>summary = ''plan'', tokensUsed = Some 100\<rparr>"

definition example_failed_record :: execution_record where
  "example_failed_record =
     \<lparr>er_agentType = ''ARCHITECT'', er_status = FAILED, er_tokensUsed = None,
      er_error = Some ''timeout'', er_executionTime = Some 2\<rparr>"

definition example_stage_checkpoint :: checkpoint where
  "example_stage_checkpoint =
     \<lparr>cp_sessionId = ''s1'', cp_stageIndex = 0, cp_stageName = ''Planning'',
      cp_completedAgents = [''PM''],
      cp_state = Some \<lparr>st_currentStageIndex = 1,
        st_context = [''projectName'' \<mapsto> JStr ''app'',
                      ''PM_output'' \<mapsto> JOut example_plan_output]\<rparr>\<rparr>"

definition example_failed_session :: session where
  "example_failed_session =
     \<lparr>sess_id = ''s1'', sess_status = Failed, sess_workflowId = ''PLAN'',
      sess_context = [''projectName'' \<mapsto> JStr ''app''],
      sess_options = \<lparr>createBranch = Some False\<rparr>,
      checkpoints = [example_stage_checkpoint],
      logs = [LogWorkflowStarted ''PLAN'' ''r1'', LogStageStarted 0 ''Planning'',
              LogAgentSpawned ''PM'' (TierName OPUS), LogStageStarted 1 ''Architecture'',
              LogAgentSpawned ''ARCHITECT'' (TierName OPUS), LogAgentRetry ''ARCHITECT'' 1,
              LogAgentSpawned ''ARCHITECT'' (TierName OPUS), LogAgentRetry ''ARCHITECT'' 2,
              LogAgentSpawned ''ARCHITECT'' (TierName OPUS), LogAgentRetry ''ARCHITECT'' 3,
              LogAgentSpawned ''ARCHITECT'' (TierName OPUS)],
      sess_completedAgents = [''PM''], currentStage = 1,
      metadata = \<lparr>totalTokens = 100, totalExecutionTime = 10,
        md_agentExecutions =
          [\<lparr>er_agentType = ''PM'', er_status = COMPLETED, er_tokensUsed = Some 100,
            er_error = None, er_executionTime = Some 2\<rparr>,
           example_failed_record, example_failed_record, example_failed_record,
           example_failed_record]\<rparr>,
      sess_error = Some ''timeout'', sess_result = None\<rparr>"



text \<open>Two agents that depend on each other.\<close>

definition cyclic_configs :: "string \<rightharpoonup> agent_config" where
  "cyclic_configs =
     [''A'' \<mapsto> \<lparr>cfg_type = ''A'', cfg_name = ''First'', dependencies = [''B''],
                 defaultModel = SONNET, maxRetries = 3, timeoutMs = 240000\<rparr>,
      ''B'' \<mapsto> \<lparr>cfg_type = ''B'', cfg_name = ''Second'', dependencies = [''A''],
                 defaultModel = SONNET, maxRetries = 3, timeoutMs = 240000\<rparr>]"

section \<open>Properties of the session manager\<close>

lemma isResumable_eq:
  "sm sessionId = Some session \<Longrightarrow>
     isResumable sm sessionId =
       ((sess_status session = Failed \<or> sess_status session = Paused) \<and>
        (checkpoints session \<noteq> [] \<or> sess_completedAgents session \<noteq> []))"
  by (simp add: isResumable_def getSession_def)

lemma markFailed_lookup:
  "sm sessionId = Some session \<Longrightarrow>
     \<exists>sm'. markFailed sm sessionId err = Inr sm' \<and>
       sm' sessionId = Some (session\<lparr>sess_status := Failed, sess_error := Some err\<rparr>)"
  by (simp add: markFailed_def updateStatus_def getSession_def object_assign_def no_updates_def)

text \<open>
  C6. For a stored session, \<open>isResumable\<close> is true exactly when the status is failed or
  paused and there is a checkpoint or a completed agent. So it is false for a completed
  session whatever its checkpoints, false for a failed session with neither checkpoints nor
  completed agents, and true after \<open>markFailed\<close> on a session that has a checkpoint.
\<close>

theorem isResumable_iff:
  assumes "sm sessionId = Some session"
  shows "(isResumable sm sessionId \<longleftrightarrow>
            (sess_status session = Failed \<or> sess_status session = Paused) \<and>
            (checkpoints session \<noteq> [] \<or> sess_completedAgents session \<noteq> []))
       \<and> (sess_status session = Completed \<longrightarrow> \<not> isResumable sm sessionId)
       \<and> (sess_status session = Failed \<and> checkpoints session = []
            \<and> sess_completedAgents session = [] \<longrightarrow> \<not> isResumable sm sessionId)
       \<and> (checkpoints session \<noteq> [] \<longrightarrow>
            (\<exists>sm'. markFailed sm sessionId err = Inr sm' \<and> isResumable sm' sessionId))"
proof -
  have a: "isResumable sm sessionId \<longleftrightarrow>
            (sess_status session = Failed \<or> sess_status session = Paused) \<and>
            (checkpoints session \<noteq> [] \<or> sess_completedAgents session \<noteq> [])"
    using isResumable_eq[of sm sessionId session] assms by simp
  have d: "\<exists>sm'. markFailed sm sessionId err = Inr sm' \<and> isResumable sm' sessionId"
    if cps: "checkpoints session \<noteq> []"
  proof -
    obtain sm' where m: "markFailed sm sessionId err = Inr sm'"
      and l: "sm' sessionId = Some (session\<lparr>sess_status := Failed, sess_error := Some err\<rparr>)"
      using markFailed_lookup[of sm sessionId session err] assms by blast
    have "isResumable sm' sessionId"
      using cps isResumable_eq[of sm' sessionId, OF l] by simp
    with m show ?thesis by blast
  qed
  from a d show ?thesis by auto
qed

theorem isResumable_iff_witness:
  "\<not> isResumable [''s1'' \<mapsto> example_session\<lparr>sess_status := Completed,
         checkpoints := [example_checkpoint]\<rparr>] ''s1''
   \<and> \<not> isResumable [''s1'' \<mapsto> example_session\<lparr>sess_status := Failed\<rparr>] ''s1''
   \<and> isResumable [''s1'' \<mapsto> example_session\<lparr>sess_status := Paused,
         sess_completedAgents := [''PM'']\<rparr>] ''s1''
   \<and> (\<exists>sm'. markFailed [''s1'' \<mapsto> example_session\<lparr>checkpoints := [example_checkpoint]\<rparr>]
              ''s1'' ''boom'' = Inr sm' \<and> isResumable sm' ''s1'')"
  using isResumable_iff[of "[''s1'' \<mapsto> example_session\<lparr>sess_status := Completed,
         checkpoints := [example_checkpoint]\<rparr>]" "''s1''" _ "''boom''"]
    isResumable_iff[of "[''s1'' \<mapsto> example_session\<lparr>sess_status := Failed\<rparr>]" "''s1''" _ "''boom''"]
    isResumable_iff[of "[''s1'' \<mapsto> example_session\<lparr>sess_status := Paused,
         sess_completedAgents := [''PM'']\<rparr>]" "''s1''" _ "''boom''"]
    isResumable_iff[of "[''s1'' \<mapsto> example_session\<lparr>checkpoints := [example_checkpoint]\<rparr>]"
      "''s1''" _ "''boom''"]
  by (simp add: example_session_def)

text \<open>
  C9. A failed session without checkpoints but with a completed agent is reported as
  resumable, and \<open>restore\<close> on it throws the no-checkpoints error.
\<close>

theorem resumable_but_not_restorable:
  assumes "sm sessionId = Some session"
    and "sess_status session = Failed"
    and "checkpoints session = []"
    and "sess_completedAgents session \<noteq> []"
  shows "isResumable sm sessionId \<and> restore sm sessionId = Inl NoCheckpoints"
  using assms by (simp add: isResumable_def getSession_def restore_def)

theorem resumable_but_not_restorable_witness:
  "isResumable [''s1'' \<mapsto> example_session\<lparr>sess_status := Failed,
       sess_completedAgents := [''PM'']\<rparr>] ''s1''
   \<and> restore [''s1'' \<mapsto> example_session\<lparr>sess_status := Failed,
       sess_completedAgents := [''PM'']\<rparr>] ''s1'' = Inl NoCheckpoints"
  using resumable_but_not_restorable[of "[''s1'' \<mapsto> example_session\<lparr>sess_status := Failed,
       sess_completedAgents := [''PM'']\<rparr>]" "''s1''"]
  by (simp add: example_session_def)

lemma addLog_lookup:
  "sm sessionId = Some session \<Longrightarrow>
     addLog sm sessionId e sessionId =
       Some (session\<lparr>logs := drop (Suc (length (logs session)) - 1000) (logs session @ [e])\<rparr>)"
  by (simp add: addLog_def getSession_def Let_def)

lemma drop_cap_append:
  "drop (length (drop (length (xs @ a) - n) (xs @ a) @ b) - n)
        (drop (length (xs @ a) - n) (xs @ a) @ b)
   = drop (length (xs @ a @ b) - n) (xs @ a @ b)"
proof (cases "length (xs @ a) \<le> n")
  case True
  then show ?thesis by simp
next
  case False
  then have "drop (length (xs @ a) - n) (xs @ a) @ b = drop (length (xs @ a) - n) ((xs @ a) @ b)"
    by simp
  moreover have "length (xs @ a) - n + (length (drop (length (xs @ a) - n) ((xs @ a) @ b)) - n)
      = length (xs @ a @ b) - n"
    using False by simp
  ultimately show ?thesis
    by (simp only: drop_drop append_assoc add.commute)
qed

lemma object_assign_logs:
  "logs (object_assign s u) = (case u_logs u of None \<Rightarrow> logs s | Some v \<Rightarrow> v)"
  by (simp add: object_assign_def)

lemma perform_logs:
  assumes "sm sessionId = Some session" and "\<not> has_logs_key c"
    and "length (logs session) \<le> 1000"
  shows "\<exists>session'. perform sessionId c sm sessionId = Some session' \<and>
           logs session' = drop (length (logs session @ call_entry c) - 1000)
                             (logs session @ call_entry c)"
proof (cases c)
  case (CallUpdateStatus status updates)
  with assms show ?thesis
    by (simp add: updateStatus_def getSession_def object_assign_logs)
next
  case (CallCheckpoint data)
  with assms show ?thesis
    by (simp add: checkpoint_def getSession_def Let_def)
next
  case (CallAddLog e)
  with assms addLog_lookup[of sm sessionId session e] show ?thesis by simp
next
  case (CallRecordAgentExecution e)
  with assms show ?thesis
    by (simp add: recordAgentExecution_def getSession_def Let_def)
next
  case CallRestore
  with assms show ?thesis
    by (auto simp: restore_def Let_def)
qed

lemma perform_all_logs:
  "sm sessionId = Some session \<Longrightarrow> \<forall>c \<in> set calls. \<not> has_logs_key c \<Longrightarrow>
   length (logs session) \<le> 1000 \<Longrightarrow>
     \<exists>session'. fold (perform sessionId) calls sm sessionId = Some session' \<and>
       logs session' = drop (length (logs session @ concat (map call_entry calls)) - 1000)
                         (logs session @ concat (map call_entry calls))"
proof (induction calls arbitrary: sm session)
  case Nil
  then show ?case by simp
next
  case (Cons c calls)
  obtain s1 where s1: "perform sessionId c sm sessionId = Some s1"
    and l1: "logs s1 = drop (length (logs session @ call_entry c) - 1000)
                         (logs session @ call_entry c)"
    using perform_logs[of sm sessionId session c] Cons.prems by auto
  have "length (logs s1) = length (logs session @ call_entry c)
      - (length (logs session @ call_entry c) - 1000)"
    by (simp only: l1 length_drop)
  then have n1: "length (logs s1) \<le> 1000"
    by arith
  obtain s2 where s2: "fold (perform sessionId) calls (perform sessionId c sm) sessionId = Some s2"
    and l2: "logs s2 = drop (length (logs s1 @ concat (map call_entry calls)) - 1000)
                         (logs s1 @ concat (map call_entry calls))"
    using Cons.IH[of "perform sessionId c sm" s1, OF s1 _ n1] Cons.prems(2) by auto
  have "logs s2 = drop (length (logs session @ call_entry c @ concat (map call_entry calls)) - 1000)
                    (logs session @ call_entry c @ concat (map call_entry calls))"
    unfolding l2 l1 by (rule drop_cap_append)
  with s2 show ?case by simp
qed

text \<open>
  C8. From the creation of a session on, whatever calls are made on it (any sequence of
  \<open>addLog\<close> calls, and between them any calls that do not write the \<open>logs\<close> field
  themselves), its log is the last 1000 of the entries added by \<open>addLog\<close>, in the order
  in which they were added: it never holds more than 1000 entries, and it holds exactly 1000
  once more than 1000 have been added.
\<close>

theorem log_keeps_last_1000:
  assumes "\<forall>c \<in> set calls. \<not> has_logs_key c"
  shows "\<exists>session'.
           fold (perform sessionId) calls
             (snd (createSession sm sessionId workflowId ctx opts)) sessionId = Some session' \<and>
           logs session' = drop (length (concat (map call_entry calls)) - 1000)
                             (concat (map call_entry calls)) \<and>
           length (logs session') \<le> 1000 \<and>
           (length (concat (map call_entry calls)) > 1000 \<longrightarrow> length (logs session') = 1000)"
proof -
  let ?sm0 = "snd (createSession sm sessionId workflowId ctx opts)"
  let ?s0 = "fst (createSession sm sessionId workflowId ctx opts)"
  let ?es = "concat (map call_entry calls)"
  have l: "?sm0 sessionId = Some ?s0" and e: "logs ?s0 = []"
    by (simp_all add: createSession_def Let_def)
  obtain session' where f: "fold (perform sessionId) calls ?sm0 sessionId = Some session'"
    and g: "logs session' = drop (length ?es - 1000) ?es"
    using perform_all_logs[of ?sm0 sessionId ?s0 calls, OF l assms] e by auto
  have n: "length (logs session') = length ?es - (length ?es - 1000)"
    by (simp only: g length_drop)
  have "length (logs session') \<le> 1000"
    using n by arith
  moreover have "length ?es > 1000 \<longrightarrow> length (logs session') = 1000"
    using n by arith
  ultimately show ?thesis using f g by blast
qed

lemma concat_call_entry_addLog: "concat (map call_entry (map CallAddLog es)) = es"
  by (induction es) simp_all

theorem log_keeps_last_1000_witness:
  "\<exists>session'.
     fold (perform ''s1'')
       (map CallAddLog (replicate 1001 (LogStageStarted 0 ''Planning''))
          @ [CallCheckpoint \<lparr>d_stageIndex = 0, d_stageName = ''Planning'',
               d_completedAgents = None, d_state = None\<rparr>,
             CallAddLog (LogAgentRetry ''PM'' 1)])
       (snd (createSession Map.empty ''s1'' ''BUG_FIX'' None \<lparr>createBranch = None\<rparr>)) ''s1''
       = Some session' \<and>
     logs session' = replicate 999 (LogStageStarted 0 ''Planning'') @ [LogAgentRetry ''PM'' 1] \<and>
     length (logs session') = 1000"
proof -
  let ?calls = "map CallAddLog (replicate 1001 (LogStageStarted 0 ''Planning''))
          @ [CallCheckpoint \<lparr>d_stageIndex = 0, d_stageName = ''Planning'',
               d_completedAgents = None, d_state = None\<rparr>,
             CallAddLog (LogAgentRetry ''PM'' 1)]"
  have h: "\<forall>c \<in> set ?calls. \<not> has_logs_key c"
    by auto
  have es: "concat (map call_entry ?calls)
      = replicate 1001 (LogStageStarted 0 ''Planning'') @ [LogAgentRetry ''PM'' 1]"
    by (simp only: map_append concat_append concat_call_entry_addLog) simp
  have dr: "drop (length (replicate 1001 (LogStageStarted 0 ''Planning'') @ [LogAgentRetry ''PM'' 1])
                    - 1000)
                 (replicate 1001 (LogStageStarted 0 ''Planning'') @ [LogAgentRetry ''PM'' 1])
      = replicate 999 (LogStageStarted 0 ''Planning'') @ [LogAgentRetry ''PM'' 1]"
    by (simp del: replicate_Suc)
  obtain session' where
    f: "fold (perform ''s1'') ?calls
          (snd (createSession Map.empty ''s1'' ''BUG_FIX'' None \<lparr>createBranch = None\<rparr>)) ''s1''
          = Some session'"
    and g: "logs session' = drop (length (concat (map call_entry ?calls)) - 1000)
                             (concat (map call_entry ?calls))"
    using log_keeps_last_1000[of ?calls "''s1''" Map.empty "''BUG_FIX''" None
        "\<lparr>createBranch = None\<rparr>", OF h]
    by blast
  have l: "logs session' = replicate 999 (LogStageStarted 0 ''Planning'') @ [LogAgentRetry ''PM'' 1]"
    unfolding g es dr ..
  have "length (logs session') = 1000"
    unfolding l by simp
  with f l show ?thesis by blast
qed

lemma perform_context:
  "sm sessionId = Some session \<Longrightarrow> \<not> has_context_key c \<Longrightarrow>
     \<exists>session'. perform sessionId c sm sessionId = Some session' \<and>
       sess_context session' = sess_context session"
  by (cases c)
     (auto simp: updateStatus_def checkpoint_def addLog_def recordAgentExecution_def restore_def
        getSession_def object_assign_def Let_def split: option.splits)

lemma perform_all_context:
  "sm sessionId = Some session \<Longrightarrow> \<forall>c \<in> set calls. \<not> has_context_key c \<Longrightarrow>
     \<exists>session'. fold (perform sessionId) calls sm sessionId = Some session' \<and>
       sess_context session' = sess_context session"
proof (induction calls arbitrary: sm session)
  case Nil
  then show ?case by simp
next
  case (Cons c calls)
  obtain s1 where s1: "perform sessionId c sm sessionId = Some s1"
    and c1: "sess_context s1 = sess_context session"
    using perform_context[of sm sessionId session c] Cons.prems by auto
  from Cons.IH[of "perform sessionId c sm" s1, OF s1] Cons.prems(2) c1
  show ?case by simp
qed

text \<open>
  C10. After \<open>createSession\<close> with a context, any sequence of \<open>updateStatus\<close> (with
  updates that have no \<open>context\<close> key), \<open>checkpoint\<close>, \<open>addLog\<close>,
  \<open>recordAgentExecution\<close> and \<open>restore\<close> calls on the session leaves its
  \<open>context\<close> field equal to the context given at creation. What a checkpoint is given as
  its state, agent outputs included, goes into the checkpoint and not into that field.
\<close>

theorem session_context_frame:
  assumes "\<forall>c \<in> set calls. \<not> has_context_key c"
  shows "\<exists>session'.
           fold (perform sessionId) calls
             (snd (createSession sm sessionId workflowId (Some ctx) opts)) sessionId
             = Some session' \<and>
           sess_context session' = ctx"
proof -
  let ?sm0 = "snd (createSession sm sessionId workflowId (Some ctx) opts)"
  let ?s0 = "fst (createSession sm sessionId workflowId (Some ctx) opts)"
  have l: "?sm0 sessionId = Some ?s0"
    by (simp add: createSession_def Let_def)
  have c: "sess_context ?s0 = ctx"
    by (simp add: createSession_def Let_def)
  from perform_all_context[of ?sm0 sessionId ?s0 calls, OF l assms] c
  show ?thesis by simp
qed

theorem session_context_frame_witness:
  "\<exists>session'.
     fold (perform ''s1'')
       [CallAddLog (LogStageStarted 0 ''Investigation''),
        CallRecordAgentExecution \<lparr>er_agentType = ''PM'', er_status = ''completed'',
          er_tokensUsed = Some 10, er_error = None, er_executionTime = Some 5\<rparr>,
        CallCheckpoint \<lparr>d_stageIndex = 0, d_stageName = ''Investigation'',
          d_completedAgents = Some [''PM''],
          d_state = Some \<lparr>st_currentStageIndex = 1,
            st_context = [''PM_output'' \<mapsto> JOut \<lparr>summary = ''plan'', tokensUsed = Some 10\<rparr>]\<rparr>\<rparr>,
        CallUpdateStatus Failed (no_updates\<lparr>u_error := Some ''boom''\<rparr>),
        CallRestore]
       (snd (createSession Map.empty ''s1'' ''BUG_FIX'' (Some Map.empty)
          \<lparr>createBranch = None\<rparr>)) ''s1'' = Some session' \<and>
     sess_context session' = Map.empty"
  using session_context_frame[of
      "[CallAddLog (LogStageStarted 0 ''Investigation''),
        CallRecordAgentExecution \<lparr>er_agentType = ''PM'', er_status = ''completed'',
          er_tokensUsed = Some 10, er_error = None, er_executionTime = Some 5\<rparr>,
        CallCheckpoint \<lparr>d_stageIndex = 0, d_stageName = ''Investigation'',
          d_completedAgents = Some [''PM''],
          d_state = Some \<lparr>st_currentStageIndex = 1,
            st_context = [''PM_output'' \<mapsto> JOut \<lparr>summary = ''plan'', tokensUsed = Some 10\<rparr>]\<rparr>\<rparr>,
        CallUpdateStatus Failed (no_updates\<lparr>u_error := Some ''boom''\<rparr>),
        CallRestore]" "''s1''" Map.empty "''BUG_FIX''" Map.empty "\<lparr>createBranch = None\<rparr>"]
  by (simp add: no_updates_def)

section \<open>Properties of the model selector\<close>

lemma AGENT_CONFIGS_defaultModel:
  "AGENT_CONFIGS agentType = Some config \<Longrightarrow> isValidTier (defaultModel config)"
  by (auto simp: AGENT_CONFIGS_def isValidTier_def split: if_splits)

lemma DEFAULT_MODEL_MAPPINGS_valid:
  "DEFAULT_MODEL_MAPPINGS agentType = Some tier \<Longrightarrow> isValidTier tier"
  by (auto simp: DEFAULT_MODEL_MAPPINGS_def isValidTier_def split: if_splits)

lemma isValidTier_cases:
  "isValidTier tier \<longleftrightarrow> tier = OPUS \<or> tier = SONNET \<or> tier = HAIKU"
  by (auto simp: isValidTier_def)

lemma isValidTier_nonempty: "isValidTier tier \<Longrightarrow> tier \<noteq> []"
  by (auto simp: isValidTier_def)

lemma get_property_own: "object key = Some v \<Longrightarrow> get_property object key = Own v"
  by (simp add: get_property_def)

lemma get_property_undefined:
  "object key = None \<Longrightarrow> key \<notin> set Object_prototype \<Longrightarrow> get_property object key = Undefined"
  by (simp add: get_property_def)

lemma hierarchy_level_valid:
  "isValidTier tier \<Longrightarrow>
     \<exists>l. hierarchy_level (TierName tier) = Own l \<and> MODEL_HIERARCHY tier = Some l"
  by (auto simp: isValidTier_cases hierarchy_level_def get_property_def MODEL_HIERARCHY_def)

lemma downgrade_valid: "\<exists>t. downgrade tier = TierName t \<and> isValidTier t"
  by (simp add: downgrade_def isValidTier_def Let_def)

lemma upgrade_valid: "\<exists>t. upgrade tier = TierName t \<and> isValidTier t"
  by (simp add: upgrade_def isValidTier_def Let_def)

lemma enforceMaxTier_bound:
  assumes "isValidTier (maxTier opts)" and "isValidTier tier"
  shows "\<exists>t. enforceMaxTier opts (TierName tier) = TierName t \<and> isValidTier t \<and>
           (\<exists>l m. MODEL_HIERARCHY t = Some l \<and> MODEL_HIERARCHY (maxTier opts) = Some m \<and> l \<le> m)"
  using assms
  by (auto simp: isValidTier_cases enforceMaxTier_def hierarchy_level_def get_property_def
      MODEL_HIERARCHY_def nullish_def js_greater_def)

lemma declared_default_valid:
  assumes "agentType \<notin> set Object_prototype"
  shows "\<exists>t. (case or_else (config_defaultModel (get_property AGENT_CONFIGS agentType))
                   (or_else (value_of (get_property DEFAULT_MODEL_MAPPINGS agentType))
                      (Some (TierName SONNET))) of
                None \<Rightarrow> TierName SONNET | Some m \<Rightarrow> m) = TierName t \<and> isValidTier t"
proof (cases "AGENT_CONFIGS agentType")
  case None
  then have c: "config_defaultModel (get_property AGENT_CONFIGS agentType) = None"
    using assms by (simp add: get_property_undefined config_defaultModel_def)
  show ?thesis
  proof (cases "DEFAULT_MODEL_MAPPINGS agentType")
    case n: None
    then have "value_of (get_property DEFAULT_MODEL_MAPPINGS agentType) = None"
      using assms by (simp add: get_property_undefined value_of_def)
    with c show ?thesis by (simp add: or_else_def isValidTier_def)
  next
    case (Some tier)
    then have "value_of (get_property DEFAULT_MODEL_MAPPINGS agentType) = Some (TierName tier)"
      by (simp add: get_property_own value_of_def)
    with c DEFAULT_MODEL_MAPPINGS_valid[OF Some] isValidTier_nonempty[of tier] show ?thesis
      by (simp add: or_else_def)
  qed
next
  case (Some config)
  then have "config_defaultModel (get_property AGENT_CONFIGS agentType)
      = Some (TierName (defaultModel config))"
    by (simp add: get_property_own config_defaultModel_def)
  with AGENT_CONFIGS_defaultModel[OF Some] isValidTier_nonempty[of "defaultModel config"]
  show ?thesis
    by (simp add: or_else_def)
qed

text \<open>
  C2, as the claim states it, fails. An override that is not one of the three tier names is
  given the level of \<open>sonnet\<close> for the comparison and, when that does not exceed the
  maximum, is returned as it is. And for an agent tag that names a property every object
  inherits, the lookup in the overrides finds that property, here the function
  \<open>Object\<close>, and it is returned.
\<close>

theorem selectModel_invalid_override_counterexample:
  "isValidTier (maxTier \<lparr>maxTier = OPUS, overrides = [''PM'' \<mapsto> ''gpt-4''],
       optimizeCost = False\<rparr>)
   \<and> selectModel \<lparr>maxTier = OPUS, overrides = [''PM'' \<mapsto> ''gpt-4''], optimizeCost = False\<rparr>
       AGENT_CONFIGS ''PM'' Map.empty = TierName ''gpt-4''
   \<and> \<not> isValidTier ''gpt-4''
   \<and> isValidTier (maxTier default_selector_options)
   \<and> selectModel default_selector_options AGENT_CONFIGS ''constructor'' Map.empty
       = InheritedMember ''constructor''"
  by (simp add: selectModel_def or_else_def value_of_def get_property_def Object_prototype_def
      enforceMaxTier_def hierarchy_level_def MODEL_HIERARCHY_def nullish_def js_greater_def
      isValidTier_def default_selector_options_def)

text \<open>
  C2, amended. If the configured maximum tier is one of the three tiers, the agent tag is
  not the name of a property that every object inherits, and the override configured for
  the tag, if there is one, is one of the three tiers (or empty, which counts as no
  override), then for every context \<open>selectModel\<close> returns one of the three tiers, at a
  level not above the maximum, whatever the declared default and the upgrade or downgrade
  for complexity. With maximum \<open>sonnet\<close>, no override and default \<open>opus\<close> it returns
  \<open>sonnet\<close>.
\<close>

theorem selectModel_within_max:
  assumes "isValidTier (maxTier opts)"
    and "agentType \<notin> set Object_prototype"
    and "\<forall>ov. overrides opts agentType = Some ov \<longrightarrow> ov = [] \<or> isValidTier ov"
  shows "\<exists>tier. selectModel opts AGENT_CONFIGS agentType context = TierName tier
       \<and> isValidTier tier
       \<and> (\<exists>l m. MODEL_HIERARCHY tier = Some l \<and>
                MODEL_HIERARCHY (maxTier opts) = Some m \<and> l \<le> m)
       \<and> (maxTier opts = SONNET \<and> overrides opts agentType = None \<and>
            map_option defaultModel (AGENT_CONFIGS agentType) = Some OPUS
            \<longrightarrow> tier = SONNET)"
proof -
  let ?r = "selectModel opts AGENT_CONFIGS agentType context"
  let ?d = "case or_else (config_defaultModel (get_property AGENT_CONFIGS agentType))
                   (or_else (value_of (get_property DEFAULT_MODEL_MAPPINGS agentType))
                      (Some (TierName SONNET))) of
                None \<Rightarrow> TierName SONNET | Some m \<Rightarrow> m"
  have "\<exists>tier. isValidTier tier \<and> ?r = enforceMaxTier opts (TierName tier)"
  proof (cases "or_else (value_of (get_property (overrides opts) agentType)) None")
    case None
    obtain t where t: "?d = TierName t" "isValidTier t"
      using declared_default_valid[OF assms(2)] by blast
    have "\<exists>t'. (if context ''complexity'' = Some (JStr ''low'') \<and> optimizeCost opts
                  then downgrade ?d
                  else if context ''complexity'' = Some (JStr ''high'')
                  then upgrade ?d else ?d) = TierName t' \<and> isValidTier t'"
      using t downgrade_valid[of ?d] upgrade_valid[of ?d] by auto
    with None show ?thesis
      by (auto simp: selectModel_def Let_def)
  next
    case (Some ov)
    then obtain o' where o: "overrides opts agentType = Some o'" "o' \<noteq> []" "ov = TierName o'"
      using assms(2)
      by (cases "overrides opts agentType")
         (auto simp: or_else_def value_of_def get_property_def split: if_splits)
    with assms(3) have "isValidTier o'" by auto
    with Some o show ?thesis by (auto simp: selectModel_def)
  qed
  then obtain tier where t: "isValidTier tier" "?r = enforceMaxTier opts (TierName tier)"
    by blast
  obtain res where res: "?r = TierName res" "isValidTier res"
      "\<exists>l m. MODEL_HIERARCHY res = Some l \<and> MODEL_HIERARCHY (maxTier opts) = Some m \<and> l \<le> m"
    using enforceMaxTier_bound[OF assms(1) t(1)] t(2) by auto
  have c: "res = SONNET"
    if h: "maxTier opts = SONNET" "overrides opts agentType = None"
      "map_option defaultModel (AGENT_CONFIGS agentType) = Some OPUS"
  proof -
    obtain config where cf: "AGENT_CONFIGS agentType = Some config" "defaultModel config = OPUS"
      using h(3) by auto
    have d: "?d = TierName OPUS"
      using cf by (simp add: get_property_own config_defaultModel_def or_else_def)
    have o: "or_else (value_of (get_property (overrides opts) agentType)) None = None"
      using h(2) assms(2) by (simp add: get_property_undefined value_of_def or_else_def)
    have "?r = enforceMaxTier opts
        (if context ''complexity'' = Some (JStr ''low'') \<and> optimizeCost opts
         then downgrade (TierName OPUS)
         else if context ''complexity'' = Some (JStr ''high'')
         then upgrade (TierName OPUS) else TierName OPUS)"
      by (simp add: selectModel_def o d Let_def)
    also have "\<dots> = TierName SONNET"
      by (simp add: h(1) Let_def downgrade_def upgrade_def
          enforceMaxTier_def hierarchy_level_def get_property_def MODEL_HIERARCHY_def
          nullish_def js_greater_def)
    finally show ?thesis
      using res(1) by simp
  qed
  from res c show ?thesis
    by (intro exI[of _ res]) simp
qed

theorem selectModel_within_max_witness:
  "selectModel \<lparr>maxTier = SONNET, overrides = Map.empty, optimizeCost = False\<rparr>
     AGENT_CONFIGS ''PM'' Map.empty = TierName SONNET
   \<and> (\<exists>tier. selectModel \<lparr>maxTier = SONNET, overrides = [''DOE'' \<mapsto> OPUS],
         optimizeCost = True\<rparr> AGENT_CONFIGS ''DOE'' [''complexity'' \<mapsto> JStr ''high'']
         = TierName tier \<and> isValidTier tier
       \<and> (\<exists>l m. MODEL_HIERARCHY tier = Some l \<and> MODEL_HIERARCHY SONNET = Some m \<and> l \<le> m))"
  using selectModel_within_max[of "\<lparr>maxTier = SONNET, overrides = Map.empty,
        optimizeCost = False\<rparr>" "''PM''" Map.empty]
    selectModel_within_max[of "\<lparr>maxTier = SONNET, overrides = [''DOE'' \<mapsto> OPUS],
        optimizeCost = True\<rparr>" "''DOE''" "[''complexity'' \<mapsto> JStr ''high'']"]
  by (simp add: isValidTier_def AGENT_CONFIGS_def Object_prototype_def)

section \<open>Properties of the engine\<close>

lemma spawn_succeeded:
  "try_agent env (spawn_run env run a) a = AttemptSucceeded t out \<Longrightarrow>
   spawnAndExecuteAgent env run sm a =
     (Inr (succeeded_execution env run a t out), succeeded_run env run a t out,
      succeeded_store env run sm a out)"
  apply (subst spawnAndExecuteAgent.simps)
  apply (simp add: Let_def spawn_run_def spawn_execution_def succeeded_execution_def
      succeeded_run_def succeeded_store_def spawn_store_def)
  done

lemma spawn_failed_final:
  "try_agent env (spawn_run env run a) a = AttemptFailed t m \<Longrightarrow>
   retries_left env run a = None \<Longrightarrow>
   spawnAndExecuteAgent env run sm a =
     (Inl (final_error env a m), failed_run env run a t m, failed_store env run sm a m)"
  apply (subst spawnAndExecuteAgent.simps)
  apply (simp add: Let_def spawn_run_def spawn_execution_def failed_execution_def
      failed_run_def failed_store_def spawn_store_def retries_left_def final_error_def
      split: option.splits jsval.splits if_splits)
  done

lemma spawn_failed_retry:
  "try_agent env (spawn_run env run a) a = AttemptFailed t m \<Longrightarrow>
   retries_left env run a = Some r \<Longrightarrow>
   spawnAndExecuteAgent env run sm a =
     spawnAndExecuteAgent env (retry_run env run a t m r) (retry_store env run sm a m r) a"
  apply (subst spawnAndExecuteAgent.simps)
  apply (simp add: Let_def spawn_run_def spawn_execution_def failed_execution_def
      failed_run_def failed_store_def spawn_store_def retries_left_def retry_run_def
      retry_store_def
      split: option.splits jsval.splits if_splits)
  done

lemma spawn_induct [case_names succeeded failed_final failed_retry]:
  assumes "\<And>run sm t out.
      try_agent env (spawn_run env run a) a = AttemptSucceeded t out \<Longrightarrow> P run sm"
    and "\<And>run sm t m.
      try_agent env (spawn_run env run a) a = AttemptFailed t m \<Longrightarrow>
      retries_left env run a = None \<Longrightarrow> P run sm"
    and "\<And>run sm t m r.
      try_agent env (spawn_run env run a) a = AttemptFailed t m \<Longrightarrow>
      retries_left env run a = Some r \<Longrightarrow>
      P (retry_run env run a t m r) (retry_store env run sm a m r) \<Longrightarrow> P run sm"
  shows "P run sm"
  using assms
proof (induction env run sm a rule: spawnAndExecuteAgent.induct)
  case (1 env run sm agentType)
  show ?case
  proof (cases "try_agent env (spawn_run env run agentType) agentType")
    case (AttemptSucceeded t out)
    then show ?thesis by (rule "1.prems"(1))
  next
    case (AttemptFailed t m)
    show ?thesis
    proof (cases "retries_left env run agentType")
      case None
      with AttemptFailed show ?thesis by (rule "1.prems"(2))
    next
      case (Some r)
      then obtain c where c: "getAgentConfig env agentType = Some c"
        and z: "or_zero (run_context run (agentType @ ''_retries'')) = JNum r"
        and lt: "r < maxRetries c"
        by (auto simp: retries_left_def split: option.splits jsval.splits if_splits)
      have z': "or_zero (run_context (failed_run env run agentType t m)
          (agentType @ ''_retries'')) = JNum r"
        using z by (simp add: failed_run_def spawn_run_def)
      have "P (retry_run env run agentType t m r) (retry_store env run sm agentType m r)"
        unfolding retry_run_def retry_store_def failed_store_def failed_run_def
          failed_execution_def spawn_store_def spawn_run_def spawn_execution_def
        by (rule "1.IH"[OF refl refl refl refl
              AttemptFailed[unfolded spawn_run_def spawn_execution_def] refl refl refl c
              z'[unfolded failed_run_def failed_execution_def spawn_run_def spawn_execution_def]
              lt "1.prems"])
      with AttemptFailed Some show ?thesis by (rule "1.prems"(3))
    qed
  qed
qed

lemma keeps_context_refl: "keeps_context sm sm"
  by (simp add: keeps_context_def)

lemma keeps_context_trans:
  "keeps_context a b \<Longrightarrow> keeps_context b c \<Longrightarrow> keeps_context a c"
  unfolding keeps_context_def by metis

lemma addLog_keeps: "keeps_context sm (addLog sm sid e)"
  by (auto simp: keeps_context_def addLog_def getSession_def Let_def split: option.splits)

lemma recordAgentExecution_keeps: "keeps_context sm (recordAgentExecution sm sid e)"
  by (auto simp: keeps_context_def recordAgentExecution_def getSession_def Let_def
      split: option.splits)

lemma checkpoint_keeps: "checkpoint sm sid d = Inr (cp, sm') \<Longrightarrow> keeps_context sm sm'"
  by (auto simp: keeps_context_def checkpoint_def getSession_def Let_def split: option.splits)

lemma object_assign_context:
  "sess_context (object_assign s u) = (case u_context u of None \<Rightarrow> sess_context s | Some v \<Rightarrow> v)"
  by (simp add: object_assign_def)

lemma updateStatus_keeps:
  "u_context u = None \<Longrightarrow> updateStatus sm sid st u = Inr sm' \<Longrightarrow> keeps_context sm sm'"
  by (cases "sm sid")
     (auto simp: keeps_context_def updateStatus_def getSession_def object_assign_context)

lemma markFailed_keeps: "markFailed sm sid err = Inr sm' \<Longrightarrow> keeps_context sm sm'"
  using updateStatus_keeps[of "no_updates\<lparr>u_error := Some err\<rparr>" sm sid Failed sm']
  by (simp add: markFailed_def no_updates_def)

lemma markCompleted_keeps: "markCompleted sm sid res = Inr sm' \<Longrightarrow> keeps_context sm sm'"
  using updateStatus_keeps[of "no_updates\<lparr>u_result := Some res\<rparr>" sm sid Completed sm']
  by (simp add: markCompleted_def no_updates_def)

lemma spawn_store_keeps: "keeps_context sm (spawn_store env run sm a)"
  unfolding spawn_store_def by (rule addLog_keeps)

lemma failed_store_keeps: "keeps_context sm (failed_store env run sm a m)"
  unfolding failed_store_def
  by (rule keeps_context_trans[OF spawn_store_keeps recordAgentExecution_keeps])

lemma succeeded_store_keeps: "keeps_context sm (succeeded_store env run sm a out)"
  unfolding succeeded_store_def
  by (rule keeps_context_trans[OF spawn_store_keeps recordAgentExecution_keeps])

lemma retry_store_keeps: "keeps_context sm (retry_store env run sm a m r)"
  unfolding retry_store_def
  by (rule keeps_context_trans[OF failed_store_keeps addLog_keeps])

lemma spawn_keeps_context:
  "keeps_context sm (snd (snd (spawnAndExecuteAgent env run sm a)))"
proof (induction run sm rule: spawn_induct[where env = env and a = a])
  case (succeeded run sm t out)
  then show ?case
    by (simp add: spawn_succeeded succeeded_store_keeps)
next
  case (failed_final run sm t m)
  then show ?case
    by (simp add: spawn_failed_final failed_store_keeps)
next
  case (failed_retry run sm t m r)
  from failed_retry(3) show ?case
    unfolding spawn_failed_retry[OF failed_retry(1,2)]
    by (rule keeps_context_trans[OF retry_store_keeps])
qed

lemma run_sequentially_keeps:
  "keeps_context sm (snd (snd (run_sequentially env run sm as)))"
proof (induction as arbitrary: run sm)
  case Nil
  show ?case by (simp add: keeps_context_refl)
next
  case (Cons a as)
  obtain r run' sm' where sp: "spawnAndExecuteAgent env run sm a = (r, run', sm')"
    by (cases "spawnAndExecuteAgent env run sm a") auto
  have k: "keeps_context sm sm'"
    using spawn_keeps_context[of sm env run a] sp by simp
  show ?case
  proof (cases r)
    case (Inl e)
    with sp k show ?thesis by simp
  next
    case (Inr x)
    with sp keeps_context_trans[OF k Cons.IH[of sm' run']] show ?thesis by simp
  qed
qed

lemma run_all_keeps:
  "keeps_context sm (snd (snd (run_all env run sm as)))"
proof (induction as arbitrary: run sm)
  case Nil
  show ?case by (simp add: keeps_context_refl)
next
  case (Cons a as)
  obtain r run' sm' where sp: "spawnAndExecuteAgent env run sm a = (r, run', sm')"
    by (cases "spawnAndExecuteAgent env run sm a") auto
  have k: "keeps_context sm sm'"
    using spawn_keeps_context[of sm env run a] sp by simp
  obtain r2 run2 sm2 where ra: "run_all env run' sm' as = (r2, run2, sm2)"
    by (cases "run_all env run' sm' as") auto
  from sp ra keeps_context_trans[OF k Cons.IH[of sm' run']] show ?case
    by simp
qed

lemma executeStage_keeps:
  "keeps_context sm (snd (snd (executeStage env run sm stage)))"
  by (simp add: executeStage_def Let_def keeps_context_refl run_all_keeps
      run_sequentially_keeps)

lemma stage_loop_keeps:
  "keeps_context sm (snd (snd (stage_loop env stgs i run sm)))"
proof (induction env stgs i run sm rule: stage_loop.induct)
  case (1 env stgs i run sm)
  let ?sm1 = "addLog sm (run_sessionId run) (LogStageStarted i (stage_name (stgs ! nat i)))"
  let ?st = "executeStage env (run\<lparr>currentStageIndex := i\<rparr>) ?sm1 (stgs ! nat i)"
  show ?case
  proof (cases "i < int (length stgs) \<and> run_status run \<noteq> WfCancelled \<and> \<not> i < 0")
    case False
    then show ?thesis
      by (subst stage_loop.simps) (auto simp: keeps_context_refl)
  next
    case True
    obtain r run2 sm2 where st: "?st = (r, run2, sm2)"
      by (cases ?st) auto
    have k1: "keeps_context sm ?sm1"
      by (rule addLog_keeps)
    have "keeps_context ?sm1 (snd (snd ?st))"
      by (rule executeStage_keeps)
    with st have "keeps_context ?sm1 sm2" by simp
    with k1 have k2: "keeps_context sm sm2"
      by (rule keeps_context_trans)
    show ?thesis
    proof (cases r)
      case (Inl e)
      with True st k2 show ?thesis
        by (subst stage_loop.simps) simp
    next
      case (Inr u)
      let ?d = "\<lparr>d_stageIndex = i, d_stageName = stage_name (stgs ! nat i),
                 d_completedAgents = Some (completedAgents run2),
                 d_state = Some \<lparr>st_currentStageIndex = i + 1,
                                  st_context = run_context run2\<rparr>\<rparr>"
      show ?thesis
      proof (cases "checkpoint sm2 (run_sessionId run2) ?d")
        case e: (Inl e)
        with True st k2 Inr show ?thesis
          by (subst stage_loop.simps) simp
      next
        case c: (Inr p)
        obtain cp sm3 where p: "p = (cp, sm3)" by (cases p) auto
        have k3: "keeps_context sm2 sm3"
          using c p checkpoint_keeps by blast
        have ih: "keeps_context sm3 (snd (snd (stage_loop env stgs (i + 1) run2 sm3)))"
          using "1.IH"[OF _ _ _ st[symmetric] Inr refl c[unfolded p] refl] True by simp
        have "stage_loop env stgs i run sm = stage_loop env stgs (i + 1) run2 sm3"
          using True st Inr c p by (subst stage_loop.simps) simp
        with keeps_context_trans[OF k2 keeps_context_trans[OF k3 ih]] show ?thesis
          by simp
      qed
    qed
  qed
qed

lemma createWorkflowPR_keeps:
  "keeps_context sm (snd (snd (createWorkflowPR env run sm)))"
  by (auto simp: createWorkflowPR_def Let_def keeps_context_refl addLog_keeps split: sum.splits)

lemma execute_then_pr_keeps:
  "keeps_context sm (snd (snd (execute_then_pr env run sm)))"
proof -
  obtain r run' sm' where ex: "executeWorkflow env run sm = (r, run', sm')"
    by (cases "executeWorkflow env run sm") auto
  have k: "keeps_context sm sm'"
    using stage_loop_keeps[of sm env "stages (run_workflowDef run)" "currentStageIndex run" run]
      ex by (simp add: executeWorkflow_def)
  show ?thesis
    using ex k keeps_context_trans[OF k createWorkflowPR_keeps[of sm' env run']]
    by (cases r) (auto simp: execute_then_pr_def)
qed






lemma markFailed_store:
  "sm sid = Some s \<Longrightarrow>
     markFailed sm sid err = Inr (sm(sid \<mapsto> s\<lparr>sess_status := Failed, sess_error := Some err\<rparr>))"
  by (simp add: markFailed_def updateStatus_def getSession_def object_assign_def no_updates_def)

lemma catch_failure_recorded:
  assumes "sm sid = Some s"
    and "catch_failure sid e0 run0 sm = (Inl e, Some run, sm')"
  shows "e = e0 \<and> sm' sid = Some (s\<lparr>sess_status := Failed, sess_error := Some (message e)\<rparr>) \<and>
         run_status run = WfFailed \<and> run_error run = Some (message e)"
  using assms by (auto simp: catch_failure_def Let_def markFailed_store)

lemma keeps_context_lookup:
  "keeps_context sm sm' \<Longrightarrow> sm sid = Some s \<Longrightarrow> \<exists>s'. sm' sid = Some s'"
  unfolding keeps_context_def by blast

lemma startWorkflow_unfold:
  assumes "(case d of WorkflowId x \<Rightarrow> getWorkflow env x | WorkflowObject def \<Rightarrow> Some def) = Some wdef"
  shows "startWorkflow env d ctx opts sid rid sm =
     (case branch_step env opts (initial_run wdef ctx opts sid rid) of
        Inl e \<Rightarrow> catch_failure sid e (initial_run wdef ctx opts sid rid)
                   (addLog (snd (createSession sm sid (wf_id wdef) (Some ctx) opts)) sid
                      (LogWorkflowStarted (wf_id wdef) rid))
      | Inr run1 \<Rightarrow>
          (case execute_then_pr env run1
                  (addLog (snd (createSession sm sid (wf_id wdef) (Some ctx) opts)) sid
                      (LogWorkflowStarted (wf_id wdef) rid)) of
             (Inl e, run2, sm3) \<Rightarrow> catch_failure sid e run2 sm3
           | (Inr u, run2, sm3) \<Rightarrow>
               (case markCompleted sm3 sid
                       (Some \<lparr>res_runId = run_id run2,
                              res_gitBranch = string_of_jsval (gitBranch run2)\<rparr>) of
                  Inl e \<Rightarrow> catch_failure sid (StoreError e) (run2\<lparr>run_status := WfCompleted\<rparr>) sm3
                | Inr sm4 \<Rightarrow> (Inr (), Some (run2\<lparr>run_status := WfCompleted\<rparr>), sm4))))"
  using assms
  by (simp add: startWorkflow_def createSession_def Let_def initial_run_def branch_step_def
      cong: sum.case_cong prod.case_cong)

text \<open>
  C7, amended. Whenever \<open>startWorkflow\<close> throws an error after it has created its
  session (from its \<open>catch\<close> block, so also when an agent has used up its retries),
  the session's status has been set to failed and the message of the error is in the
  session's \<open>error\<close> field, and the run is marked failed with the same message.
\<close>

theorem startWorkflow_failure_recorded:
  assumes "startWorkflow env d ctx opts sid rid sm = (Inl e, Some run, sm')"
  shows "\<exists>s. sm' sid = Some s \<and> sess_status s = Failed \<and>
           sess_error s = Some (message e) \<and>
           run_status run = WfFailed \<and> run_error run = Some (message e)"
proof -
  obtain wdef where wdef: "(case d of WorkflowId x \<Rightarrow> getWorkflow env x
                                | WorkflowObject def \<Rightarrow> Some def) = Some wdef"
    using assms by (cases "case d of WorkflowId x \<Rightarrow> getWorkflow env x
                                | WorkflowObject def \<Rightarrow> Some def")
      (auto simp: startWorkflow_def)
  let ?session = "fst (createSession sm sid (wf_id wdef) (Some ctx) opts)"
  let ?sm1 = "snd (createSession sm sid (wf_id wdef) (Some ctx) opts)"
  let ?run0 = "initial_run wdef ctx opts sid rid"
  let ?sm2 = "addLog ?sm1 sid (LogWorkflowStarted (wf_id wdef) rid)"
  note un = assms[unfolded startWorkflow_unfold[OF wdef]]
  have l1: "?sm1 sid = Some ?session"
    by (simp add: createSession_def Let_def)
  obtain s2 where l2: "?sm2 sid = Some s2"
    using keeps_context_lookup[of ?sm1 ?sm2 sid ?session] addLog_keeps[of ?sm1] l1 by blast
  have "\<exists>e0 run0 smx sx. smx sid = Some sx \<and>
      catch_failure sid e0 run0 smx = (Inl e, Some run, sm')"
  proof (cases "branch_step env opts ?run0")
    case (Inl e0)
    with un l2 show ?thesis by auto
  next
    case (Inr run1)
    obtain r run2 sm3 where ex: "execute_then_pr env run1 ?sm2 = (r, run2, sm3)"
      by (cases "execute_then_pr env run1 ?sm2") auto
    have "keeps_context ?sm2 sm3"
      using execute_then_pr_keeps[of ?sm2 env run1] ex by simp
    then obtain s3 where l3: "sm3 sid = Some s3"
      using keeps_context_lookup[of ?sm2 sm3 sid s2] l2 by blast
    show ?thesis
    proof (cases r)
      case il: (Inl e0)
      have "catch_failure sid e0 run2 sm3 = (Inl e, Some run, sm')"
        using un Inr ex il by simp
      with l3 show ?thesis by blast
    next
      case ir: (Inr u)
      let ?mc = "markCompleted sm3 sid
         (Some \<lparr>res_runId = run_id run2, res_gitBranch = string_of_jsval (gitBranch run2)\<rparr>)"
      show ?thesis
      proof (cases ?mc)
        case ml: (Inl e1)
        have "catch_failure sid (StoreError e1) (run2\<lparr>run_status := WfCompleted\<rparr>) sm3
            = (Inl e, Some run, sm')"
          using un Inr ex ir ml by simp
        with l3 show ?thesis by blast
      next
        case mr: (Inr sm4)
        have False
          using un Inr ex ir mr by simp
        then show ?thesis ..
      qed
    qed
  qed
  then obtain e0 run0 smx sx where "smx sid = Some sx"
    "catch_failure sid e0 run0 smx = (Inl e, Some run, sm')"
    by blast
  from catch_failure_recorded[of smx sid sx e0 run0 e run sm'] this show ?thesis by simp
qed

lemmas eval_defs = startWorkflow_def example_env_def planning_workflow_def createSession_def
      addLog_def getSession_def catch_failure_def markFailed_def updateStatus_def
      object_assign_def no_updates_def Let_def execute_then_pr_def executeWorkflow_def
      stage_loop.simps executeStage_def spawnAndExecuteAgent.simps try_agent_def
      gatherDependencyOutputs_def AGENT_CONFIGS_def selectModel_def or_else_def
      value_of_def config_defaultModel_def get_property_def Object_prototype_def
      hierarchy_level_def enforceMaxTier_def MODEL_HIERARCHY_def nullish_def js_greater_def
      default_selector_options_def recordAgentExecution_def set_add_def or_zero_def
      checkpoint_def

lemma map_upd_same_iff: "(m(k \<mapsto> a) = m(k \<mapsto> b)) = (a = b)"
  by (auto dest: map_upd_eqD1)

lemma start_eval:
  "\<exists>run.
     startWorkflow example_env (WorkflowId ''PLAN'') [''projectName'' \<mapsto> JStr ''app'']
       \<lparr>createBranch = Some False\<rparr> ''s1'' ''r1'' Map.empty
       = (Inl (ExternalError ''timeout''), Some run, [''s1'' \<mapsto> example_failed_session]) \<and>
     run_context run ''PM_output'' = Some (JOut example_plan_output)"
  by (simp add: eval_defs example_failed_session_def example_stage_checkpoint_def
      example_failed_record_def example_plan_output_def map_upd_same_iff)







text \<open>
  C7, as the claim states it, fails: when the branch cannot be created,
  \<open>startWorkflow\<close> marks the session failed and throws, and the only entry of the
  session's log is the one written when the workflow started.
\<close>

theorem failure_without_log_entry_counterexample:
  "\<exists>run sm1 session.
     startWorkflow example_env (WorkflowId ''PLAN'') [''projectName'' \<mapsto> JStr ''app'']
       \<lparr>createBranch = None\<rparr> ''s1'' ''r1'' Map.empty
       = (Inl (ExternalError ''git unavailable''), Some run, sm1) \<and>
     sm1 ''s1'' = Some session \<and> sess_status session = Failed \<and>
     logs session = [LogWorkflowStarted ''PLAN'' ''r1'']"
  by (simp add: startWorkflow_def example_env_def planning_workflow_def createSession_def
      addLog_def getSession_def catch_failure_def markFailed_def updateStatus_def
      object_assign_def no_updates_def Let_def)

theorem startWorkflow_failure_recorded_witness:
  "\<exists>run sm1 session.
     startWorkflow example_env (WorkflowId ''PLAN'') [''projectName'' \<mapsto> JStr ''app'']
       \<lparr>createBranch = Some False\<rparr> ''s1'' ''r1'' Map.empty
       = (Inl (ExternalError ''timeout''), Some run, sm1) \<and>
     sm1 ''s1'' = Some session \<and> sess_status session = Failed \<and>
     sess_error session = Some ''timeout'' \<and>
     run_status run = WfFailed \<and> run_error run = Some ''timeout''"
proof -
  obtain run where a: "startWorkflow example_env (WorkflowId ''PLAN'')
       [''projectName'' \<mapsto> JStr ''app''] \<lparr>createBranch = Some False\<rparr> ''s1'' ''r1'' Map.empty
       = (Inl (ExternalError ''timeout''), Some run, [''s1'' \<mapsto> example_failed_session])"
    using start_eval by blast
  from startWorkflow_failure_recorded[OF a] a show ?thesis
    by auto
qed


text \<open>
  C4, amended. For every stored session, \<open>checkpoint\<close> with stage index 2 sets the
  session's current stage to 3. If the session is not completed, \<open>restore\<close> then returns
  the session with that checkpoint as the latest one, the run that \<open>resumeWorkflow\<close>
  builds from them has stage index 3, and \<open>resumeWorkflow\<close> continues with that run when
  the session's workflow is known.
\<close>

theorem checkpoint_then_resume_stage:
  assumes "sm sid = Some s" and "d_stageIndex d = 2"
  shows "\<exists>cp sm1 s1.
           checkpoint sm sid d = Inr (cp, sm1) \<and> sm1 sid = Some s1 \<and> currentStage s1 = 3 \<and>
           (sess_status s \<noteq> Completed \<longrightarrow>
              (\<exists>s2 sm2. restore sm1 sid = Inr (Some (s2, Some cp), sm2) \<and>
                 currentStageIndex (resumeRun rid wdef s2 (Some cp)) = 3 \<and>
                 (getWorkflow env (sess_workflowId s) = Some wdef \<longrightarrow>
                    resumeWorkflow env sid rid sm1
                      = resume_try env sid (resumeRun rid wdef s2 (Some cp)) sm2)))"
proof -
  let ?cp = "\<lparr>cp_sessionId = sid, cp_stageIndex = d_stageIndex d,
                 cp_stageName = d_stageName d,
                 cp_completedAgents =
                   (case d_completedAgents d of None \<Rightarrow> [] | Some as \<Rightarrow> as),
                 cp_state = d_state d\<rparr>"
  let ?s1 = "s\<lparr>checkpoints := checkpoints s @ [?cp], currentStage := d_stageIndex d + 1,
                 sess_completedAgents := cp_completedAgents ?cp\<rparr>"
  let ?sm1 = "sm(sid \<mapsto> ?s1)"
  have c: "checkpoint sm sid d = Inr (?cp, ?sm1)"
    using assms(1) by (simp add: checkpoint_def getSession_def Let_def)
  have st: "currentStage ?s1 = 3"
    using assms(2) by simp
  have r: "restore ?sm1 sid = Inr (Some (?s1\<lparr>sess_status := Running\<rparr>, Some ?cp),
              ?sm1(sid \<mapsto> ?s1\<lparr>sess_status := Running\<rparr>))"
    if "sess_status s \<noteq> Completed"
    using that by (simp add: restore_def Let_def)
  have i: "currentStageIndex (resumeRun rid wdef (?s1\<lparr>sess_status := Running\<rparr>) (Some ?cp)) = 3"
    using assms(2) by (simp add: resumeRun_def)
  have w: "resumeWorkflow env sid rid ?sm1
      = resume_try env sid (resumeRun rid wdef (?s1\<lparr>sess_status := Running\<rparr>) (Some ?cp))
          (?sm1(sid \<mapsto> ?s1\<lparr>sess_status := Running\<rparr>))"
    if "sess_status s \<noteq> Completed" "getWorkflow env (sess_workflowId s) = Some wdef"
    using that(2) by (simp only: resumeWorkflow_def r[OF that(1)]) simp
  from c st r i w show ?thesis
    by (intro exI[of _ ?cp] exI[of _ ?sm1] exI[of _ ?s1]) (simp del: fun_upd_upd)
qed

text \<open>
  C4, as the claim states it, fails for a completed session: the checkpoint is written and
  the current stage is 3, but \<open>restore\<close> throws and \<open>resumeWorkflow\<close> builds no run.
\<close>

theorem checkpoint_then_resume_completed_counterexample:
  "\<exists>cp sm1 s1.
     checkpoint [''s1'' \<mapsto> example_session\<lparr>sess_status := Completed\<rparr>] ''s1''
       \<lparr>d_stageIndex = 2, d_stageName = ''Verification'', d_completedAgents = None,
        d_state = None\<rparr> = Inr (cp, sm1) \<and>
     sm1 ''s1'' = Some s1 \<and> currentStage s1 = 3 \<and>
     restore sm1 ''s1'' = Inl CannotResumeCompleted \<and>
     resumeWorkflow example_env ''s1'' ''r2'' sm1
       = (Inl (StoreError CannotResumeCompleted), None, sm1)"
  by (simp add: checkpoint_def getSession_def Let_def restore_def resumeWorkflow_def
      example_session_def)

theorem checkpoint_then_resume_stage_witness:
  "\<exists>cp sm1 s1 s2 sm2.
     checkpoint [''s1'' \<mapsto> example_session] ''s1''
       \<lparr>d_stageIndex = 2, d_stageName = ''Verification'', d_completedAgents = None,
        d_state = None\<rparr> = Inr (cp, sm1) \<and>
     sm1 ''s1'' = Some s1 \<and> currentStage s1 = 3 \<and>
     restore sm1 ''s1'' = Inr (Some (s2, Some cp), sm2) \<and>
     currentStageIndex (resumeRun ''r2'' planning_workflow s2 (Some cp)) = 3"
proof -
  have "sess_status example_session \<noteq> Completed"
    by (simp add: example_session_def)
  with checkpoint_then_resume_stage[of "[''s1'' \<mapsto> example_session]" "''s1''" example_session
      "\<lparr>d_stageIndex = 2, d_stageName = ''Verification'', d_completedAgents = None,
        d_state = None\<rparr>" "''r2''" planning_workflow example_env]
  show ?thesis by simp blast
qed

section \<open>Properties of the topological sort\<close>

lemma graph_init_fold:
  "fold graph_init_step xs (i, a)
   = (\<lambda>t. if t \<in> set xs then Some 0 else i t, \<lambda>t. if t \<in> set xs then Some [] else a t)"
proof (induction xs arbitrary: i a)
  case Nil
  show ?case by simp
next
  case (Cons x xs)
  have "graph_init_step x (i, a) = (i(x \<mapsto> 0), a(x \<mapsto> []))"
    by (simp add: graph_init_step_def)
  then show ?case
    by (auto simp: Cons.IH fun_eq_iff)
qed

lemma adjacency_push_lookup:
  "adjacency_push type x adj d
   = (case adj d of None \<Rightarrow> None | Some l \<Rightarrow> Some (if x = d then l @ [type] else l))"
  by (auto simp: adjacency_push_def split: option.splits)

lemma adjacency_push_fold:
  "fold (adjacency_push type) deps adj d
   = (case adj d of None \<Rightarrow> None
      | Some l \<Rightarrow> Some (l @ replicate (count_list deps d) type))"
proof (induction deps arbitrary: adj)
  case Nil
  show ?case by (simp split: option.splits)
next
  case (Cons x deps)
  have "fold (adjacency_push type) (x # deps) adj d
      = (case adjacency_push type x adj d of None \<Rightarrow> None
         | Some l \<Rightarrow> Some (l @ replicate (count_list deps d) type))"
    by (simp add: Cons.IH)
  also have "\<dots> = (case adj d of None \<Rightarrow> None
      | Some l \<Rightarrow> Some (l @ replicate (count_list (x # deps) d) type))"
    by (simp add: adjacency_push_lookup replicate_app_Cons_same split: option.splits)
  finally show ?case .
qed

lemma graph_build_fold:
  "fold (graph_build_step configs ts) xs (i, a)
   = (\<lambda>t. if t \<in> set xs then Some (int (length (subset_deps configs ts t))) else i t,
      \<lambda>d. case a d of None \<Rightarrow> None
           | Some l \<Rightarrow> Some (l @ concat (map (\<lambda>t. replicate
                 (count_list (subset_deps configs ts t) d) t) xs)))"
proof (induction xs arbitrary: i a)
  case Nil
  show ?case by (auto simp: fun_eq_iff split: option.splits)
next
  case (Cons x xs)
  have "graph_build_step configs ts x (i, a)
      = (i(x \<mapsto> int (length (subset_deps configs ts x))),
         fold (adjacency_push x) (subset_deps configs ts x) a)"
    by (simp add: graph_build_step_def Let_def)
  then show ?case
    by (auto simp: Cons.IH fun_eq_iff adjacency_push_fold split: option.splits)
qed

lemma graph_build_eq:
  "graph_build configs ts (graph_init ts)
   = (\<lambda>t. if t \<in> set ts then Some (int (length (subset_deps configs ts t))) else None,
      \<lambda>d. if d \<in> set ts
           then Some (concat (map (\<lambda>t. replicate (count_list (subset_deps configs ts t) d) t) ts))
           else None)"
  by (simp add: graph_build_def graph_init_def graph_init_fold graph_build_fold fun_eq_iff)

lemma count_list_replicate_eq: "count_list (replicate n x) y = (if x = y then n else 0)"
  by (induction n) auto

lemma count_replicate_concat:
  "distinct ts \<Longrightarrow>
     count_list (concat (map (\<lambda>t'. replicate (f t') t') ts)) t = (if t \<in> set ts then f t else 0)"
  by (induction ts) (auto simp: count_list_replicate_eq)

lemma sum_list_count_Cons:
  "distinct L \<Longrightarrow>
     sum_list (map (count_list (x # xs)) L)
       = sum_list (map (count_list xs) L) + (if x \<in> set L then 1 else 0)"
  by (induction L) auto

lemma sum_count_distinct:
  "distinct L \<Longrightarrow> sum_list (map (count_list xs) L) = length (filter (\<lambda>x. x \<in> set L) xs)"
proof (induction xs)
  case Nil
  show ?case by (induction L) auto
next
  case (Cons x xs)
  have h: "sum_list (map (count_list (x # xs)) L)
      = sum_list (map (count_list xs) L) + (if x \<in> set L then 1 else 0)"
    using Cons.prems by (rule sum_list_count_Cons)
  have r: "length (filter (\<lambda>y. y \<in> set L) (x # xs))
      = length (filter (\<lambda>y. y \<in> set L) xs) + (if x \<in> set L then 1 else 0)"
    by simp
  show ?case
    by (simp only: h r Cons.IH[OF Cons.prems])
qed

lemma decrement_lookup:
  "decrement d m t
   = (case m t of None \<Rightarrow> None | Some n \<Rightarrow> Some (if d = t then n - 1 else n))"
  by (auto simp: decrement_def split: option.splits)

lemma decrement_fold:
  "fold decrement ds m t
   = (case m t of None \<Rightarrow> None | Some n \<Rightarrow> Some (n - int (count_list ds t)))"
proof (induction ds arbitrary: m)
  case Nil
  show ?case by (simp split: option.splits)
next
  case (Cons d ds)
  have "fold decrement (d # ds) m t
      = (case decrement d m t of None \<Rightarrow> None
         | Some n \<Rightarrow> Some (n - int (count_list ds t)))"
    by (simp add: Cons.IH)
  also have "\<dots> = (case m t of None \<Rightarrow> None
      | Some n \<Rightarrow> Some (n - int (count_list (d # ds) t)))"
    by (simp add: decrement_lookup split: option.splits)
  finally show ?case .
qed

lemma release_level_eq:
  "release_level adj L m t
   = (case m t of None \<Rightarrow> None
      | Some n \<Rightarrow> Some (n - int (count_list (concat (map (dependents_of adj) L)) t)))"
proof (induction L arbitrary: m)
  case Nil
  show ?case by (simp add: release_level_def split: option.splits)
next
  case (Cons x L)
  have "release_level adj (x # L) m t
      = release_level adj L (fold decrement (dependents_of adj x) m) t"
    by (simp add: release_level_def)
  also have "\<dots> = (case fold decrement (dependents_of adj x) m t of None \<Rightarrow> None
      | Some n \<Rightarrow> Some (n - int (count_list (concat (map (dependents_of adj) L)) t)))"
    by (rule Cons.IH)
  also have "\<dots> = (case m t of None \<Rightarrow> None
      | Some n \<Rightarrow> Some (n - int (count_list (concat (map (dependents_of adj) (x # L))) t)))"
    by (simp add: decrement_fold split: option.splits)
  finally show ?case .
qed

lemma released_count:
  assumes "distinct ts" and "distinct L" and "set L \<subseteq> set ts" and "t \<in> set ts"
  shows "count_list (concat (map (dependents_of (snd (graph_build configs ts (graph_init ts)))) L)) t
         = length (filter (\<lambda>d. d \<in> set L) (subset_deps configs ts t))"
proof -
  let ?adj = "snd (graph_build configs ts (graph_init ts))"
  have dep: "count_list (dependents_of ?adj d) t = count_list (subset_deps configs ts t) d"
    if "d \<in> set L" for d
  proof -
    from that assms(3) have "d \<in> set ts" by blast
    then have "dependents_of ?adj d
        = concat (map (\<lambda>t'. replicate (count_list (subset_deps configs ts t') d) t') ts)"
      by (simp add: dependents_of_def graph_build_eq)
    then show ?thesis
      using count_replicate_concat[OF assms(1),
          of "\<lambda>t'. count_list (subset_deps configs ts t') d" t] assms(4)
      by simp
  qed
  have "count_list (concat (map (dependents_of ?adj) L)) t
      = sum_list (map (\<lambda>d. count_list (dependents_of ?adj d) t) L)"
    by (simp add: count_list_concat o_def)
  also have "\<dots> = sum_list (map (count_list (subset_deps configs ts t)) L)"
    by (rule arg_cong[where f = sum_list], rule map_cong[OF refl]) (rule dep)
  also have "\<dots> = length (filter (\<lambda>d. d \<in> set L) (subset_deps configs ts t))"
    using assms(2) by (rule sum_count_distinct)
  finally show ?thesis .
qed

lemma level_of_append:
  "level_of (ls @ [L]) t
   = (case level_of ls t of Some i \<Rightarrow> Some i
      | None \<Rightarrow> if t \<in> set L then Some (length ls) else None)"
  by (induction ls) (auto split: option.splits)

lemma level_of_None: "level_of ls t = None \<longleftrightarrow> t \<notin> set (concat ls)"
  by (induction ls) auto

lemma level_of_less: "level_of ls t = Some i \<Longrightarrow> i < length ls"
  by (induction ls arbitrary: i) (auto split: if_splits)

lemma length_filter_split:
  assumes "\<And>x. P x \<longleftrightarrow> Q x \<or> R x" and "\<And>x. \<not> (Q x \<and> R x)"
  shows "length (filter P xs) = length (filter Q xs) + length (filter R xs)"
  using assms by (induction xs) auto

lemma kahn_step_counters:
  assumes ts: "distinct ts" and ok: "counters_ok configs ts inDegree remaining"
  shows "counters_ok configs ts
           (release_level (snd (graph_build configs ts (graph_init ts)))
              (filter (\<lambda>t. inDegree t = Some 0) remaining) inDegree)
           (filter (\<lambda>t. t \<notin> set (filter (\<lambda>t. inDegree t = Some 0) remaining)) remaining)"
proof -
  let ?L = "filter (\<lambda>t. inDegree t = Some 0) remaining"
  let ?R = "filter (\<lambda>t. t \<notin> set ?L) remaining"
  let ?adj = "snd (graph_build configs ts (graph_init ts))"
  from ok have d: "distinct remaining" and sub: "set remaining \<subseteq> set ts"
    and cnt: "\<And>t. t \<in> set ts \<Longrightarrow> inDegree t =
        Some (int (length (filter (\<lambda>d. d \<in> set remaining) (subset_deps configs ts t))))"
    by (auto simp: counters_ok_def)
  have dL: "distinct ?L" and sL: "set ?L \<subseteq> set ts"
    using d sub by auto
  have "release_level ?adj ?L inDegree t =
      Some (int (length (filter (\<lambda>d. d \<in> set ?R) (subset_deps configs ts t))))"
    if t: "t \<in> set ts" for t
  proof -
    let ?D = "subset_deps configs ts t"
    have sp: "length (filter (\<lambda>d. d \<in> set remaining) ?D)
        = length (filter (\<lambda>d. d \<in> set ?L) ?D) + length (filter (\<lambda>d. d \<in> set ?R) ?D)"
      by (rule length_filter_split) auto
    have "release_level ?adj ?L inDegree t
        = Some (int (length (filter (\<lambda>d. d \<in> set remaining) ?D))
                 - int (length (filter (\<lambda>d. d \<in> set ?L) ?D)))"
      by (simp only: release_level_eq cnt[OF t] option.case released_count[OF ts dL sL t])
    also have "\<dots> = Some (int (length (filter (\<lambda>d. d \<in> set ?R) ?D)))"
      using sp by simp
    finally show ?thesis .
  qed
  then show ?thesis
    using d sub by (auto simp: counters_ok_def)
qed

lemma kahn_step_levels:
  assumes ok: "counters_ok configs ts inDegree remaining"
    and lv: "levels_ok configs ts remaining levels"
  shows "levels_ok configs ts
           (filter (\<lambda>t. t \<notin> set (filter (\<lambda>t. inDegree t = Some 0) remaining)) remaining)
           (levels @ [filter (\<lambda>t. inDegree t = Some 0) remaining])"
proof -
  let ?L = "filter (\<lambda>t. inDegree t = Some 0) remaining"
  let ?R = "filter (\<lambda>t. t \<notin> set ?L) remaining"
  from ok have d: "distinct remaining" and sub: "set remaining \<subseteq> set ts"
    and cnt: "\<And>t. t \<in> set ts \<Longrightarrow> inDegree t =
        Some (int (length (filter (\<lambda>d. d \<in> set remaining) (subset_deps configs ts t))))"
    by (auto simp: counters_ok_def)
  from lv have dl: "distinct (concat levels)"
    and sl: "set (concat levels) = set ts - set remaining"
    and ord: "\<And>t d. t \<in> set (concat levels) \<Longrightarrow> d \<in> set (subset_deps configs ts t) \<Longrightarrow>
        \<exists>i j. level_of levels d = Some i \<and> level_of levels t = Some j \<and> i < j"
    by (auto simp: levels_ok_def)
  have a: "distinct (concat (levels @ [?L]))"
    using dl d sl by auto
  have b: "set (concat (levels @ [?L])) = set ts - set ?R"
    using sl sub by auto
  have c: "\<exists>i j. level_of (levels @ [?L]) x = Some i \<and> level_of (levels @ [?L]) t = Some j \<and> i < j"
    if t: "t \<in> set (concat (levels @ [?L]))" and x: "x \<in> set (subset_deps configs ts t)" for t x
  proof (cases "t \<in> set (concat levels)")
    case True
    from ord[OF True x] show ?thesis
      by (auto simp: level_of_append)
  next
    case False
    with t have tL: "t \<in> set ?L" by auto
    then have tr: "t \<in> set remaining" and z: "inDegree t = Some 0" by auto
    from tr sub have ts: "t \<in> set ts" by blast
    from cnt[OF ts] z have "filter (\<lambda>d. d \<in> set remaining) (subset_deps configs ts t) = []"
      by simp
    with x have "x \<notin> set remaining"
      by (auto simp: filter_empty_conv)
    moreover from x have "x \<in> set ts"
      by (simp add: subset_deps_def)
    ultimately have "x \<in> set (concat levels)"
      using sl by blast
    then obtain i where i: "level_of levels x = Some i"
      using level_of_None[of levels x] by (cases "level_of levels x") auto
    from False have n: "level_of levels t = None"
      by (simp add: level_of_None)
    from i n tL level_of_less[OF i] show ?thesis
      by (simp add: level_of_append)
  qed
  from a b c show ?thesis
    unfolding levels_ok_def by blast
qed

lemma dep_rel_finite: "finite (dep_rel configs ts)"
proof (rule finite_subset)
  show "dep_rel configs ts \<subseteq> set ts \<times> set ts"
    by (auto simp: dep_rel_def subset_deps_def)
qed simp

lemma kahn_progress:
  assumes ac: "acyclic (dep_rel configs ts)"
    and ok: "counters_ok configs ts inDegree remaining"
    and ne: "remaining \<noteq> []"
  shows "filter (\<lambda>t. inDegree t = Some 0) remaining \<noteq> []"
proof -
  have w: "wf (dep_rel configs ts)"
    using dep_rel_finite ac by (rule finite_acyclic_wf)
  from ne obtain x where x: "x \<in> set remaining"
    by (cases remaining) auto
  obtain z where z: "z \<in> set remaining"
    and m: "\<And>y. (y, z) \<in> dep_rel configs ts \<Longrightarrow> y \<notin> set remaining"
    using wfE_min[OF w x] by blast
  from ok z have zt: "z \<in> set ts"
    by (auto simp: counters_ok_def)
  have "filter (\<lambda>d. d \<in> set remaining) (subset_deps configs ts z) = []"
    using m zt by (auto simp: filter_empty_conv dep_rel_def)
  with ok zt have "inDegree z = Some 0"
    by (simp add: counters_ok_def)
  with z show ?thesis
    by (auto simp: filter_empty_conv)
qed

lemma kahn_loop_correct:
  assumes ts: "distinct ts"
  shows "counters_ok configs ts inDegree remaining \<Longrightarrow>
         levels_ok configs ts remaining levels \<Longrightarrow>
         (\<forall>ls. kahn_loop (snd (graph_build configs ts (graph_init ts))) inDegree remaining levels
                  = Inr ls \<longrightarrow> levels_ok configs ts [] ls) \<and>
         (acyclic (dep_rel configs ts) \<longrightarrow>
            (\<exists>ls. kahn_loop (snd (graph_build configs ts (graph_init ts))) inDegree remaining
                     levels = Inr ls))"
proof (induction "snd (graph_build configs ts (graph_init ts))" inDegree remaining levels
    rule: kahn_loop.induct)
  case (1 inDegree remaining levels)
  let ?adj = "snd (graph_build configs ts (graph_init ts))"
  let ?L = "filter (\<lambda>t. inDegree t = Some 0) remaining"
  show ?case
  proof (cases "remaining = []")
    case True
    with "1.prems" show ?thesis
      by (subst (1 2) kahn_loop.simps) simp
  next
    case False
    show ?thesis
    proof (cases "?L = []")
      case True
      with False kahn_progress[OF _ "1.prems"(1) False] show ?thesis
        by (subst (1 2) kahn_loop.simps) auto
    next
      case nl: False
      have eq: "kahn_loop ?adj inDegree remaining levels
          = kahn_loop ?adj (release_level ?adj ?L inDegree)
              (filter (\<lambda>t. t \<notin> set ?L) remaining) (levels @ [?L])"
        using False nl by (subst kahn_loop.simps) simp
      show ?thesis
        unfolding eq
        using False nl
        by (intro "1.hyps" kahn_step_counters[OF ts "1.prems"(1)]
            kahn_step_levels[OF "1.prems"]) auto
    qed
  qed
qed

lemma subset_deps_subset: "set (subset_deps configs ts t) \<subseteq> set ts"
  by (auto simp: subset_deps_def)

lemma kahn_initial:
  assumes "distinct ts"
  shows "counters_ok configs ts (fst (graph_build configs ts (graph_init ts))) ts"
    and "levels_ok configs ts ts []"
proof -
  have "filter (\<lambda>d. d \<in> set ts) (subset_deps configs ts t) = subset_deps configs ts t" for t
    using subset_deps_subset[of configs ts t] by (auto simp: filter_id_conv)
  with assms show "counters_ok configs ts (fst (graph_build configs ts (graph_init ts))) ts"
    by (simp add: counters_ok_def graph_build_eq)
  show "levels_ok configs ts ts []"
    by (simp add: levels_ok_def)
qed

lemma levels_ok_acyclic:
  assumes "levels_ok configs ts [] ls"
  shows "acyclic (dep_rel configs ts)"
proof -
  let ?f = "\<lambda>t. case level_of ls t of None \<Rightarrow> 0 | Some i \<Rightarrow> i"
  from assms have d2: "set (concat ls) = set ts - set []"
    and d3: "\<forall>t \<in> set (concat ls). \<forall>d \<in> set (subset_deps configs ts t).
        \<exists>i j. level_of ls d = Some i \<and> level_of ls t = Some j \<and> i < j"
    unfolding levels_ok_def by blast+
  have d2': "set (concat ls) = set ts"
    using d2 by (simp only: list.set(1) Diff_empty)
  have "?f d < ?f t" if "t \<in> set ts" "d \<in> set (subset_deps configs ts t)" for t d
  proof -
    from d3 d2' that obtain i j where "level_of ls d = Some i" "level_of ls t = Some j" "i < j"
      by blast
    then show ?thesis by simp
  qed
  then have "dep_rel configs ts \<subseteq> measure ?f"
    by (auto simp: dep_rel_def)
  then have "wf (dep_rel configs ts)"
    by (rule wf_subset[OF wf_measure])
  then show ?thesis by (rule wf_acyclic)
qed

text \<open>
  C5. For a list of distinct tags (a subset of the agents): if the dependency relation
  restricted to the list is acyclic, \<open>topologicalSortAgents\<close> returns levels that hold
  every tag of the list exactly once and in which every dependency of a tag that lies in
  the list is in a strictly earlier level than the tag (dependencies outside the list are
  not looked at); if the restricted relation has a cycle, it fails with the circular
  dependency error.
\<close>

theorem topologicalSortAgents_levels:
  assumes "distinct agentTypes"
  shows "(acyclic (dep_rel configs agentTypes) \<longrightarrow>
           (\<exists>levels. topologicalSortAgents configs agentTypes = Inr levels \<and>
              distinct (concat levels) \<and> set (concat levels) = set agentTypes \<and>
              (\<forall>t \<in> set agentTypes. \<forall>d \<in> set (getAgentDependencies configs t).
                 d \<in> set agentTypes \<longrightarrow>
                 (\<exists>i j. level_of levels d = Some i \<and> level_of levels t = Some j \<and> i < j))))
       \<and> (\<not> acyclic (dep_rel configs agentTypes) \<longrightarrow>
            topologicalSortAgents configs agentTypes = Inl CircularDependency)"
proof -
  let ?g = "graph_build configs agentTypes (graph_init agentTypes)"
  have run: "topologicalSortAgents configs agentTypes = kahn_loop (snd ?g) (fst ?g) agentTypes []"
    by (simp add: topologicalSortAgents_def split: prod.splits)
  note c = kahn_loop_correct[OF assms kahn_initial[OF assms], of configs]
  have sound: "levels_ok configs agentTypes [] ls"
    if "topologicalSortAgents configs agentTypes = Inr ls" for ls
    using c that unfolding run by blast
  have a: "\<exists>levels. topologicalSortAgents configs agentTypes = Inr levels \<and>
              distinct (concat levels) \<and> set (concat levels) = set agentTypes \<and>
              (\<forall>t \<in> set agentTypes. \<forall>d \<in> set (getAgentDependencies configs t).
                 d \<in> set agentTypes \<longrightarrow>
                 (\<exists>i j. level_of levels d = Some i \<and> level_of levels t = Some j \<and> i < j))"
    if ac: "acyclic (dep_rel configs agentTypes)"
  proof -
    obtain ls where ls: "topologicalSortAgents configs agentTypes = Inr ls"
      using c ac unfolding run by blast
    from sound[OF ls] have d1: "distinct (concat ls)"
      and d2: "set (concat ls) = set agentTypes - set []"
      and d3: "\<forall>t \<in> set (concat ls). \<forall>d \<in> set (subset_deps configs agentTypes t).
        \<exists>i j. level_of ls d = Some i \<and> level_of ls t = Some j \<and> i < j"
      unfolding levels_ok_def by blast+
    have d2': "set (concat ls) = set agentTypes"
      using d2 by (simp only: list.set(1) Diff_empty)
    have o: "\<exists>i j. level_of ls d = Some i \<and> level_of ls t = Some j \<and> i < j"
      if "t \<in> set agentTypes" "d \<in> set (subset_deps configs agentTypes t)" for t d
      using d3 d2' that by blast
    note d1 d2'
    moreover have "\<exists>i j. level_of ls d = Some i \<and> level_of ls t = Some j \<and> i < j"
      if "t \<in> set agentTypes" "d \<in> set (getAgentDependencies configs t)" "d \<in> set agentTypes"
      for t d
      using o[of t d] that by (simp add: subset_deps_def)
    ultimately show ?thesis using ls by blast
  qed
  have b: "topologicalSortAgents configs agentTypes = Inl CircularDependency"
    if nac: "\<not> acyclic (dep_rel configs agentTypes)"
  proof (cases "topologicalSortAgents configs agentTypes")
    case (Inl e)
    then show ?thesis by (cases e) simp
  next
    case (Inr ls)
    from levels_ok_acyclic[OF sound[OF Inr]] nac show ?thesis by simp
  qed
  from a b show ?thesis by blast
qed

lemma topo_eval: "topologicalSortAgents AGENT_CONFIGS [''ARCHITECT'', ''PM'', ''UIUX'']
    = Inr [[''PM''], [''ARCHITECT'', ''UIUX'']]"
  by (simp add: topologicalSortAgents_def graph_build_def graph_init_def graph_build_step_def
      graph_init_step_def subset_deps_def getAgentDependencies_def AGENT_CONFIGS_def
      adjacency_push_def kahn_loop.simps release_level_def dependents_of_def decrement_def
      Let_def)

theorem topologicalSortAgents_levels_witness:
  "(\<exists>levels. topologicalSortAgents AGENT_CONFIGS [''ARCHITECT'', ''PM'', ''UIUX''] = Inr levels \<and>
      distinct (concat levels) \<and> set (concat levels) = set [''ARCHITECT'', ''PM'', ''UIUX''] \<and>
      (\<forall>t \<in> set [''ARCHITECT'', ''PM'', ''UIUX''].
         \<forall>d \<in> set (getAgentDependencies AGENT_CONFIGS t).
           d \<in> set [''ARCHITECT'', ''PM'', ''UIUX''] \<longrightarrow>
           (\<exists>i j. level_of levels d = Some i \<and> level_of levels t = Some j \<and> i < j)))
   \<and> topologicalSortAgents AGENT_CONFIGS [''ARCHITECT'', ''PM'', ''UIUX'']
       = Inr [[''PM''], [''ARCHITECT'', ''UIUX'']]
   \<and> topologicalSortAgents cyclic_configs [''A'', ''B''] = Inl CircularDependency"
proof -
  have "dep_rel AGENT_CONFIGS [''ARCHITECT'', ''PM'', ''UIUX'']
      \<subseteq> measure (\<lambda>t. if t = ''PM'' then 0 else 1)"
    by (auto simp: dep_rel_def subset_deps_def getAgentDependencies_def AGENT_CONFIGS_def)
  then have "wf (dep_rel AGENT_CONFIGS [''ARCHITECT'', ''PM'', ''UIUX''])"
    by (rule wf_subset[OF wf_measure])
  then have ac: "acyclic (dep_rel AGENT_CONFIGS [''ARCHITECT'', ''PM'', ''UIUX''])"
    by (rule wf_acyclic)
  have "(''A'', ''B'') \<in> dep_rel cyclic_configs [''A'', ''B'']"
    and "(''B'', ''A'') \<in> dep_rel cyclic_configs [''A'', ''B'']"
    by (simp_all add: dep_rel_def subset_deps_def getAgentDependencies_def cyclic_configs_def)
  then have "(''A'', ''A'') \<in> (dep_rel cyclic_configs [''A'', ''B''])\<^sup>+"
    by (rule trancl_into_trancl[OF r_into_trancl])
  then have nac: "\<not> acyclic (dep_rel cyclic_configs [''A'', ''B''])"
    by (auto simp: acyclic_def)
  have d1: "distinct [''ARCHITECT'', ''PM'', ''UIUX'']" and d2: "distinct [''A'', ''B'']"
    by simp_all
  from topologicalSortAgents_levels[OF d1, of AGENT_CONFIGS] ac
    topologicalSortAgents_levels[OF d2, of cyclic_configs] nac topo_eval
  show ?thesis by blast
qed

end
